theory Spec2Isabelle
  imports Complex_Main "HOL-Library.Sublist" "HOL-Library.Log_Nat"
begin

section \<open>Python values\<close>

text \<open>
  The program is Python; what its built-in operations and library calls do is taken
  from CPython 3.11.

  A Python \<open>str\<close> is a sequence of Unicode code points; slicing, \<open>len\<close> and the
  regular-expression engine all count code points. A string is therefore a list of
  code points (natural numbers), and an ASCII literal is written \<open>ascii ''...''\<close>.
\<close>

type_synonym pystr = "nat list"

definition ascii :: "string \<Rightarrow> pystr" where
  "ascii s = map of_char s"

text \<open>
  Finite floats are represented by their exact rational value; the three non-finite
  ones can come out of the JSON decoder.
\<close>

datatype pyfloat = Finite rat | PosInf | NegInf | NaN

text \<open>
  The objects \<open>response.json()\<close> can produce, which are also the objects this program
  stores and returns. A \<open>dict\<close> is an association list read with \<open>map_of\<close>.
\<close>

datatype pyval =
    PNone
  | PBool bool
  | PInt int
  | PFloat pyfloat
  | PStr pystr
  | PList "pyval list"
  | PDict "(pystr \<times> pyval) list"

text \<open>The exceptions (all subclasses of \<open>Exception\<close>) that this program can meet.\<close>

datatype py_error =
    TypeError
  | KeyError
  | AttributeError
  | ValueError
  | OverflowError
  | RequestException
  | JSONDecodeError

definition ebind :: "'e + 'a \<Rightarrow> ('a \<Rightarrow> 'e + 'b) \<Rightarrow> 'e + 'b" where
  "ebind m f = (case m of Inl e \<Rightarrow> Inl e | Inr v \<Rightarrow> f v)"

section \<open>Salary parsing\<close>

text \<open>\<open>sub in s\<close> on strings: \<open>sub\<close> occurs in \<open>s\<close> as a contiguous block.\<close>

fun contains :: "pystr \<Rightarrow> pystr \<Rightarrow> bool" where
  "contains sub [] = (sub = [])"
| "contains sub (c # cs) = (prefix sub (c # cs) \<or> contains sub cs)"

text \<open>The markers of the source: negotiable pay, hourly pay, daily pay.\<close>

definition marker_negotiable :: pystr where
  "marker_negotiable = [0x9762, 0x8B70]"

definition marker_hourly :: pystr where
  "marker_hourly = [0x6642, 0x85AA]"

definition marker_daily :: pystr where
  "marker_daily = [0x65E5, 0x85AA]"

text \<open>\<open>salary_str.replace(",", "")\<close>: every comma (code point 44) is dropped.\<close>

definition remove_commas :: "pystr \<Rightarrow> pystr" where
  "remove_commas s = filter (\<lambda>c. c \<noteq> 44) s"

text \<open>
  In a \<open>str\<close> pattern \<open>\d\<close> matches the characters of Unicode category Nd, and \<open>int\<close>
  reads each of them by its decimal value. The decimal digits come in blocks of ten
  consecutive code points, zero first; \<open>nd_zeros\<close> lists the zero of every block
  (Unicode 14.0, the table of CPython 3.11).
\<close>

definition nd_zeros :: "nat list" where
  "nd_zeros =
    [0x30, 0x660, 0x6F0, 0x7C0, 0x966, 0x9E6, 0xA66, 0xAE6, 0xB66, 0xBE6, 0xC66,
     0xCE6, 0xD66, 0xDE6, 0xE50, 0xED0, 0xF20, 0x1040, 0x1090, 0x17E0, 0x1810,
     0x1946, 0x19D0, 0x1A80, 0x1A90, 0x1B50, 0x1BB0, 0x1C40, 0x1C50, 0xA620,
     0xA8D0, 0xA900, 0xA9D0, 0xA9F0, 0xAA50, 0xABF0, 0xFF10, 0x104A0, 0x10D30,
     0x11066, 0x110F0, 0x11136, 0x111D0, 0x112F0, 0x11450, 0x114D0, 0x11650,
     0x116C0, 0x11730, 0x118E0, 0x11950, 0x11C50, 0x11D50, 0x11DA0, 0x16A60,
     0x16AC0, 0x16B50, 0x1D7CE, 0x1D7D8, 0x1D7E2, 0x1D7EC, 0x1D7F6, 0x1E140,
     0x1E2F0, 0x1E950, 0x1FBF0]"

definition decimal_digit :: "nat \<Rightarrow> nat option" where
  "decimal_digit c = map_option (\<lambda>z. c - z) (find (\<lambda>z. z \<le> c \<and> c < z + 10) nd_zeros)"

definition is_digit :: "nat \<Rightarrow> bool" where
  "is_digit c = (decimal_digit c \<noteq> None)"

definition digit_value :: "nat \<Rightarrow> nat" where
  "digit_value c = (case decimal_digit c of Some d \<Rightarrow> d | None \<Rightarrow> 0)"

text \<open>
  \<open>re.findall(r'\d+', s)\<close>: the maximal non-empty runs of digits, from left to right.
  The first argument is the run being read.
\<close>

fun scan_digits :: "pystr \<Rightarrow> pystr \<Rightarrow> pystr list" where
  "scan_digits cur [] = (if cur = [] then [] else [cur])"
| "scan_digits cur (c # cs) =
     (if is_digit c then scan_digits (cur @ [c]) cs
      else (if cur = [] then [] else [cur]) @ scan_digits [] cs)"

definition findall_digits :: "pystr \<Rightarrow> pystr list" where
  "findall_digits s = scan_digits [] s"

text \<open>The number a string of digits denotes in base ten.\<close>

definition decimal_value :: "pystr \<Rightarrow> nat" where
  "decimal_value ds = foldl (\<lambda>acc c. 10 * acc + digit_value c) 0 ds"

text \<open>
  \<open>int(ds)\<close> for a string of digits, which is all \<open>findall\<close> hands over here (signs,
  blanks and underscores, which \<open>int\<close> also reads, never reach it; any other string is a
  \<open>ValueError\<close>). \<open>maxd\<close> is the interpreter's limit on the length of an integer string,
  \<open>sys.get_int_max_str_digits()\<close>: 0 switches it off, 4300 is the default, and strings
  of at most 640 digits are never checked.
\<close>

definition py_int :: "nat \<Rightarrow> pystr \<Rightarrow> py_error + int" where
  "py_int maxd ds =
     (if ds = [] \<or> \<not> list_all is_digit ds then Inl ValueError
      else if 640 < length ds \<and> 0 < maxd \<and> maxd < length ds then Inl ValueError
      else Inr (int (decimal_value ds)))"

text \<open>The strings of digits that the limit lets through.\<close>

definition within_limit :: "nat \<Rightarrow> pystr \<Rightarrow> bool" where
  "within_limit maxd ds = (\<not> (640 < length ds \<and> 0 < maxd \<and> maxd < length ds))"

text \<open>
  \<open>n / 2\<close> for an \<open>int\<close> \<open>n\<close>: true division gives the binary64 float nearest to the
  exact quotient, ties to the even mantissa, and raises \<open>OverflowError\<close> when that is
  beyond the range of a float. Up to 53 bits the quotient is exact; above, the
  magnitude is rounded to 53 bits.
\<close>

definition int_truediv_2 :: "int \<Rightarrow> py_error + pyfloat" where
  "int_truediv_2 n =
     (let m = nat \<bar>n\<bar>; k = floorlog 2 m in
      if k \<le> 53 then Inr (Finite (of_int n / 2))
      else
        let sh = k - 53;
            q = m div 2 ^ sh;
            r = m mod 2 ^ sh;
            q' = (if 2 ^ sh < 2 * r \<or> (2 * r = 2 ^ sh \<and> odd q) then q + 1 else q)
        in if 2 ^ 1025 \<le> q' * 2 ^ sh then Inl OverflowError
           else Inr (Finite (of_int (sgn n * int (q' * 2 ^ sh)) / 2)))"

text \<open>
  \<open>parse_salary\<close>, on a \<open>str\<close>. The result is \<open>None\<close>, an \<open>int\<close> (one number) or a
  \<open>float\<close> (the mean of two numbers).
\<close>

definition parse_salary :: "nat \<Rightarrow> pystr \<Rightarrow> py_error + pyval" where
  "parse_salary maxd salary_str =
     (if contains marker_negotiable salary_str then Inr PNone
      else if contains marker_hourly salary_str \<or> contains marker_daily salary_str
        then Inr PNone
      else
        let clean_str = remove_commas salary_str;
            numbers = findall_digits clean_str
        in if length numbers = 2 then
             ebind (py_int maxd (numbers ! 0)) (\<lambda>a.
             ebind (py_int maxd (numbers ! 1)) (\<lambda>b.
             ebind (int_truediv_2 (a + b)) (\<lambda>f. Inr (PFloat f))))
           else if length numbers = 1 then
             ebind (py_int maxd (numbers ! 0)) (\<lambda>a. Inr (PInt a))
           else Inr PNone)"

text \<open>
  The words of the specification. A text "contains a marker" when one of the three
  markers occurs in it as a contiguous block; its "numbers" are the digit runs left
  after the commas are removed (the variable \<open>numbers\<close> of the source).
\<close>

definition has_marker :: "pystr \<Rightarrow> bool" where
  "has_marker s =
     (sublist marker_negotiable s \<or> sublist marker_hourly s \<or> sublist marker_daily s)"

definition salary_numbers :: "pystr \<Rightarrow> pystr list" where
  "salary_numbers s = findall_digits (remove_commas s)"

text \<open>
  "Maximal digit runs": a text read as a gap \<open>g\<close> followed by runs, each with the
  gap after it. The runs are maximal when the gaps hold no digit and every gap between
  two runs is not empty.
\<close>

fun weave :: "pystr \<Rightarrow> (pystr \<times> pystr) list \<Rightarrow> pystr" where
  "weave g [] = g"
| "weave g ((r, g') # rest) = g @ r @ weave g' rest"

fun separated :: "(pystr \<times> pystr) list \<Rightarrow> bool" where
  "separated [] = True"
| "separated [x] = True"
| "separated ((r, g) # y # ys) = (g \<noteq> [] \<and> separated (y # ys))"

section \<open>Building a listing\<close>

text \<open>\<open>bool(v)\<close>, as \<open>if v\<close> tests it.\<close>

definition truthy :: "pyval \<Rightarrow> bool" where
  "truthy v =
     (case v of
        PNone \<Rightarrow> False
      | PBool b \<Rightarrow> b
      | PInt i \<Rightarrow> i \<noteq> 0
      | PFloat f \<Rightarrow> f \<noteq> Finite 0
      | PStr s \<Rightarrow> s \<noteq> []
      | PList xs \<Rightarrow> xs \<noteq> []
      | PDict kvs \<Rightarrow> kvs \<noteq> [])"

text \<open>\<open>d.get(k, dflt)\<close> on a \<open>dict\<close>; \<open>d.get(k)\<close> is \<open>dict_get d k PNone\<close>.\<close>

definition dict_get :: "(pystr \<times> pyval) list \<Rightarrow> pystr \<Rightarrow> pyval \<Rightarrow> pyval" where
  "dict_get kvs k dflt = (case map_of kvs k of None \<Rightarrow> dflt | Some v \<Rightarrow> v)"

text \<open>\<open>v[k]\<close> with a \<open>str\<close> key: only a \<open>dict\<close> can be subscripted that way.\<close>

definition subscript_key :: "pyval \<Rightarrow> pystr \<Rightarrow> py_error + pyval" where
  "subscript_key v k =
     (case v of
        PDict kvs \<Rightarrow> (case map_of kvs k of None \<Rightarrow> Inl KeyError | Some x \<Rightarrow> Inr x)
      | _ \<Rightarrow> Inl TypeError)"

text \<open>
  \<open>k in v\<close> with a \<open>str\<close> \<open>k\<close>: a key of a \<open>dict\<close>, an element of a \<open>list\<close>, a
  substring of a \<open>str\<close>; the other objects are not containers.
\<close>

definition py_in :: "pystr \<Rightarrow> pyval \<Rightarrow> py_error + bool" where
  "py_in k v =
     (case v of
        PDict kvs \<Rightarrow> Inr (map_of kvs k \<noteq> None)
      | PList xs \<Rightarrow> Inr (PStr k \<in> set xs)
      | PStr s \<Rightarrow> Inr (contains k s)
      | _ \<Rightarrow> Inl TypeError)"

definition py_len :: "pyval \<Rightarrow> py_error + nat" where
  "py_len v =
     (case v of
        PStr s \<Rightarrow> Inr (length s)
      | PList xs \<Rightarrow> Inr (length xs)
      | PDict kvs \<Rightarrow> Inr (length (remdups (map fst kvs)))
      | _ \<Rightarrow> Inl TypeError)"

text \<open>
  The objects a \<open>for\<close> loop draws from \<open>v\<close>: the elements of a \<open>list\<close>, the
  one-character strings of a \<open>str\<close>, the keys of a \<open>dict\<close>.
\<close>

definition py_iter :: "pyval \<Rightarrow> py_error + pyval list" where
  "py_iter v =
     (case v of
        PList xs \<Rightarrow> Inr xs
      | PStr s \<Rightarrow> Inr (map (\<lambda>c. PStr [c]) s)
      | PDict kvs \<Rightarrow> Inr (map PStr (remdups (map fst kvs)))
      | _ \<Rightarrow> Inl TypeError)"

text \<open>\<open>[s['description'] for s in specialties]\<close>, stopping at the first element that raises.\<close>

fun descriptions :: "pyval list \<Rightarrow> py_error + pyval list" where
  "descriptions [] = Inr []"
| "descriptions (s # ss) =
     ebind (subscript_key s (ascii ''description'')) (\<lambda>d.
     ebind (descriptions ss) (\<lambda>ds. Inr (d # ds)))"

text \<open>\<open>sep.join(items)\<close>: every item has to be a \<open>str\<close>.\<close>

fun str_items :: "pyval list \<Rightarrow> py_error + pystr list" where
  "str_items [] = Inr []"
| "str_items (PStr s # vs) = ebind (str_items vs) (\<lambda>ss. Inr (s # ss))"
| "str_items (_ # vs) = Inl TypeError"

fun join :: "pystr \<Rightarrow> pystr list \<Rightarrow> pystr" where
  "join sep [] = []"
| "join sep [s] = s"
| "join sep (s # t # ts) = s @ sep @ join sep (t # ts)"

definition py_join :: "pystr \<Rightarrow> pyval list \<Rightarrow> py_error + pystr" where
  "py_join sep items = ebind (str_items items) (\<lambda>ss. Inr (join sep ss))"

text \<open>The text that stands for "no skill required".\<close>

definition no_requirement :: pystr where
  "no_requirement = [0x4E0D, 0x62D8]"

definition skill_str :: "pyval \<Rightarrow> py_error + pystr" where
  "skill_str specialties =
     (if truthy specialties then
        ebind (py_iter specialties) (\<lambda>ss.
        ebind (descriptions ss) (\<lambda>ds. py_join (ascii '','') ds))
      else Inr no_requirement)"

text \<open>\<open>d[:100] + "..."\<close>: a \<open>str\<close> is cut and extended, anything else raises.\<close>

definition description_preview :: "pyval \<Rightarrow> py_error + pystr" where
  "description_preview d =
     (case d of PStr s \<Rightarrow> Inr (take 100 s @ ascii ''...'') | _ \<Rightarrow> Inl TypeError)"

text \<open>
  What an f-string puts for \<open>{v}\<close>. \<open>str_of\<close> is Python's \<open>str\<close> on numbers, lists and
  dicts, which is not spelled out here and is a parameter of everything that formats.
\<close>

definition py_format :: "(pyval \<Rightarrow> pystr) \<Rightarrow> pyval \<Rightarrow> pystr" where
  "py_format str_of v =
     (case v of
        PStr s \<Rightarrow> s
      | PNone \<Rightarrow> ascii ''None''
      | PBool b \<Rightarrow> (if b then ascii ''True'' else ascii ''False'')
      | _ \<Rightarrow> str_of v)"

text \<open>\<open>f"https:{link.get('job')}" if link else ""\<close>, for \<open>link = job.get("link")\<close>.\<close>

definition job_url :: "(pyval \<Rightarrow> pystr) \<Rightarrow> pyval \<Rightarrow> py_error + pystr" where
  "job_url str_of link =
     (if truthy link then
        (case link of
           PDict l \<Rightarrow> Inr (ascii ''https:'' @ py_format str_of (dict_get l (ascii ''job'') PNone))
         | _ \<Rightarrow> Inl AttributeError)
      else Inr [])"

text \<open>The nine keys of a listing, in the order of the source.\<close>

definition key_title :: pystr where
  "key_title = [0x8077, 0x7F3A, 0x540D, 0x7A31]"

definition key_company :: pystr where
  "key_company = [0x516C, 0x53F8, 0x540D, 0x7A31]"

definition key_region :: pystr where
  "key_region = [0x5730, 0x5340]"

definition key_salary :: pystr where
  "key_salary = [0x85AA, 0x8CC7, 0x539F, 0x6587]"

definition key_education :: pystr where
  "key_education = [0x5B78, 0x6B77]"

definition key_experience :: pystr where
  "key_experience = [0x7D93, 0x6B77]"

definition key_skills :: pystr where
  "key_skills = [0x64C5, 0x9577, 0x5DE5, 0x5177]"

definition key_description :: pystr where
  "key_description = [0x5DE5, 0x4F5C, 0x5167, 0x5BB9]"

definition key_url :: pystr where
  "key_url = [0x7DB2, 0x5740]"

text \<open>
  One round of the loop over the records of a page, up to \<open>job_list.append\<close>: the
  listing built from \<open>job\<close>, or the exception raised on the way. A \<open>job\<close> that is not a
  \<open>dict\<close> has no \<open>get\<close>.
\<close>

definition job_info :: "(pyval \<Rightarrow> pystr) \<Rightarrow> pyval \<Rightarrow> py_error + (pystr \<times> pyval) list" where
  "job_info str_of job =
     (case job of
        PDict kvs \<Rightarrow>
          ebind (skill_str (dict_get kvs (ascii ''specialty'') (PList []))) (\<lambda>skills.
          ebind (description_preview (dict_get kvs (ascii ''description'') (PStr []))) (\<lambda>preview.
          ebind (job_url str_of (dict_get kvs (ascii ''link'') PNone)) (\<lambda>url.
            Inr [(key_title, dict_get kvs (ascii ''jobName'') PNone),
                 (key_company, dict_get kvs (ascii ''custName'') PNone),
                 (key_region, dict_get kvs (ascii ''jobAddrNoDesc'') PNone),
                 (key_salary, dict_get kvs (ascii ''salaryDesc'') PNone),
                 (key_education, dict_get kvs (ascii ''optionEdu'') PNone),
                 (key_experience, dict_get kvs (ascii ''periodDesc'') PNone),
                 (key_skills, PStr skills),
                 (key_description, PStr preview),
                 (key_url, PStr url)])))
      | _ \<Rightarrow> Inl AttributeError)"

text \<open>
  The loop over the records of a page: each listing is appended to \<open>job_list\<close> as soon
  as it is built, and the first exception leaves the loop with what was appended.
\<close>

fun append_jobs ::
  "(pyval \<Rightarrow> pystr) \<Rightarrow> pyval list \<Rightarrow> (pystr \<times> pyval) list list
     \<Rightarrow> (pystr \<times> pyval) list list \<times> py_error option" where
  "append_jobs str_of [] job_list = (job_list, None)"
| "append_jobs str_of (job # jobs) job_list =
     (case job_info str_of job of
        Inl e \<Rightarrow> (job_list, Some e)
      | Inr info \<Rightarrow> append_jobs str_of jobs (job_list @ [info]))"

section \<open>Fetching the pages\<close>

text \<open>
  The test of the source on the decoded document \<open>data\<close>:
  \<open>"data" not in data or "list" not in data["data"] or len(data["data"]["list"]) == 0\<close>,
  with \<open>or\<close> evaluating no more than it needs.
\<close>

definition no_results :: "pyval \<Rightarrow> py_error + bool" where
  "no_results data =
     ebind (py_in (ascii ''data'') data) (\<lambda>has_data.
       if \<not> has_data then Inr True
       else
         ebind (subscript_key data (ascii ''data'')) (\<lambda>d.
         ebind (py_in (ascii ''list'') d) (\<lambda>has_list.
           if \<not> has_list then Inr True
           else
             ebind (subscript_key d (ascii ''list'')) (\<lambda>l.
             ebind (py_len l) (\<lambda>n. Inr (n = 0))))))"

text \<open>The two ways a round of the loop over the pages ends without an exception.\<close>

datatype flow = Next | Break

text \<open>
  The body of \<open>try\<close> for one page, from the decoded document on. \<open>response\<close> is what
  \<open>requests.get(...)\<close> followed by \<open>response.json()\<close> gave: an exception or a
  document. The result is \<open>job_list\<close> as the body leaves it, with the exception
  that ended the body or the way the body ended. Reporting progress and sleeping come
  last in the body and do not raise.
\<close>

definition try_page ::
  "(pyval \<Rightarrow> pystr) \<Rightarrow> py_error + pyval \<Rightarrow> (pystr \<times> pyval) list list
     \<Rightarrow> (pystr \<times> pyval) list list \<times> (py_error + flow)" where
  "try_page str_of response job_list =
     (case response of
        Inl e \<Rightarrow> (job_list, Inl e)
      | Inr data \<Rightarrow>
          (case no_results data of
             Inl e \<Rightarrow> (job_list, Inl e)
           | Inr True \<Rightarrow> (job_list, Inr Break)
           | Inr False \<Rightarrow>
               (case ebind (subscript_key data (ascii ''data'')) (\<lambda>d.
                     ebind (subscript_key d (ascii ''list'')) py_iter) of
                  Inl e \<Rightarrow> (job_list, Inl e)
                | Inr jobs \<Rightarrow>
                    (case append_jobs str_of jobs job_list of
                       (job_list', Some e) \<Rightarrow> (job_list', Inl e)
                     | (job_list', None) \<Rightarrow> (job_list', Inr Next)))))"

text \<open>
  What a run of \<open>fetch_104_jobs\<close> has done so far: the listings appended, the pages
  requested, the errors shown with \<open>st.error\<close> (page and exception) and the progress
  shown (page and number of pages), each in the order it happened.
\<close>

record fetch_state =
  job_list :: "(pystr \<times> pyval) list list"
  requested :: "int list"
  reported :: "(int \<times> py_error) list"
  progress :: "(int \<times> int) list"

definition initial_state :: fetch_state where
  "initial_state = \<lparr>job_list = [], requested = [], reported = [], progress = []\<rparr>"

text \<open>
  One round of the loop over the pages. \<open>service keyword page\<close> is the answer of the
  remote service to the request for that page, decoded. \<open>except Exception\<close> shows
  the error and leaves the loop. The status line written before \<open>try\<close> changes
  nothing that is read later and is left out.
\<close>

definition fetch_page ::
  "(pyval \<Rightarrow> pystr) \<Rightarrow> (pystr \<Rightarrow> int \<Rightarrow> py_error + pyval) \<Rightarrow> pystr \<Rightarrow> int \<Rightarrow> int
     \<Rightarrow> fetch_state \<Rightarrow> fetch_state \<times> flow" where
  "fetch_page str_of service keyword pages page st =
     (let st1 = st\<lparr>requested := requested st @ [page]\<rparr> in
      case try_page str_of (service keyword page) (job_list st1) of
        (job_list', Inl e) \<Rightarrow>
          (st1\<lparr>job_list := job_list', reported := reported st1 @ [(page, e)]\<rparr>, Break)
      | (job_list', Inr Break) \<Rightarrow> (st1\<lparr>job_list := job_list'\<rparr>, Break)
      | (job_list', Inr Next) \<Rightarrow>
          (st1\<lparr>job_list := job_list', progress := progress st1 @ [(page, pages)]\<rparr>, Next))"

fun fetch_loop ::
  "(pyval \<Rightarrow> pystr) \<Rightarrow> (pystr \<Rightarrow> int \<Rightarrow> py_error + pyval) \<Rightarrow> pystr \<Rightarrow> int \<Rightarrow> int list
     \<Rightarrow> fetch_state \<Rightarrow> fetch_state" where
  "fetch_loop str_of service keyword pages [] st = st"
| "fetch_loop str_of service keyword pages (page # rest) st =
     (case fetch_page str_of service keyword pages page st of
        (st', Break) \<Rightarrow> st'
      | (st', Next) \<Rightarrow> fetch_loop str_of service keyword pages rest st')"

text \<open>The whole run, \<open>for page in range(1, pages + 1)\<close>, and the rows it returns.\<close>

definition fetch_run ::
  "(pyval \<Rightarrow> pystr) \<Rightarrow> (pystr \<Rightarrow> int \<Rightarrow> py_error + pyval) \<Rightarrow> pystr \<Rightarrow> int \<Rightarrow> fetch_state" where
  "fetch_run str_of service keyword pages =
     fetch_loop str_of service keyword pages [1..pages] initial_state"

definition fetch_104_jobs ::
  "(pyval \<Rightarrow> pystr) \<Rightarrow> (pystr \<Rightarrow> int \<Rightarrow> py_error + pyval) \<Rightarrow> pystr \<Rightarrow> int
     \<Rightarrow> (pystr \<times> pyval) list list" where
  "fetch_104_jobs str_of service keyword pages =
     job_list (fetch_run str_of service keyword pages)"

text \<open>
  What one page contributes on its own: the listings it appends, and how its body ends.
\<close>

definition page_listings :: "(pyval \<Rightarrow> pystr) \<Rightarrow> py_error + pyval \<Rightarrow> (pystr \<times> pyval) list list" where
  "page_listings str_of response = fst (try_page str_of response [])"

definition page_end :: "(pyval \<Rightarrow> pystr) \<Rightarrow> py_error + pyval \<Rightarrow> py_error + flow" where
  "page_end str_of response = snd (try_page str_of response [])"

text \<open>
  The records the loop of a page runs over: what iterating \<open>data.list\<close> gives, when
  the document is an object whose member \<open>data\<close> is an object with a member \<open>list\<close>.
\<close>

definition records_of :: "pyval \<Rightarrow> pyval list option" where
  "records_of doc =
     (case subscript_key doc (ascii ''data'') of
        Inl _ \<Rightarrow> None
      | Inr d \<Rightarrow>
          (case subscript_key d (ascii ''list'') of
             Inl _ \<Rightarrow> None
           | Inr l \<Rightarrow> (case py_iter l of Inl _ \<Rightarrow> None | Inr items \<Rightarrow> Some items)))"

text \<open>
  The words of the specification, "the nested structure \<open>data.list\<close> is absent or
  empty". A member is absent from a value that is no object, that has no such key, or
  that holds null under the key; \<open>data.list\<close> is empty when its length is 0.
\<close>

definition json_member :: "pyval \<Rightarrow> pystr \<Rightarrow> pyval option" where
  "json_member v k =
     (case v of
        PDict kvs \<Rightarrow> (case map_of kvs k of Some PNone \<Rightarrow> None | r \<Rightarrow> r)
      | _ \<Rightarrow> None)"

definition data_list_absent_or_empty :: "pyval \<Rightarrow> bool" where
  "data_list_absent_or_empty doc =
     (case json_member doc (ascii ''data'') of
        None \<Rightarrow> True
      | Some d \<Rightarrow>
          (case json_member d (ascii ''list'') of
             None \<Rightarrow> True
           | Some l \<Rightarrow> py_len l = Inr 0))"

text \<open>
  The part of it in which nothing is out of shape: the document is an object without
  \<open>data\<close>, or \<open>data\<close> is an object without \<open>list\<close> or with a \<open>list\<close> of length 0.
\<close>

definition objects_without_records :: "pyval \<Rightarrow> bool" where
  "objects_without_records doc =
     (case doc of
        PDict kvs \<Rightarrow>
          (case map_of kvs (ascii ''data'') of
             None \<Rightarrow> True
           | Some (PDict kvs') \<Rightarrow>
               (case map_of kvs' (ascii ''list'') of
                  None \<Rightarrow> True
                | Some l \<Rightarrow> py_len l = Inr 0)
           | Some _ \<Rightarrow> False)
      | _ \<Rightarrow> False)"

section \<open>After the fetch\<close>

text \<open>\<open>lambda x: x[:3]\<close>, applied to every value of the region column.\<close>

definition region_code :: "pyval \<Rightarrow> py_error + pyval" where
  "region_code x =
     (case x of
        PStr s \<Rightarrow> Inr (PStr (take 3 s))
      | PList xs \<Rightarrow> Inr (PList (take 3 xs))
      | _ \<Rightarrow> Inl TypeError)"

text \<open>\<open>s.split(sep)\<close> for a one-character separator; the first argument is the piece being read.\<close>

fun split_on :: "nat \<Rightarrow> pystr \<Rightarrow> pystr \<Rightarrow> pystr list" where
  "split_on sep cur [] = [cur]"
| "split_on sep cur (c # cs) =
     (if c = sep then cur # split_on sep [] cs else split_on sep (cur @ [c]) cs)"

definition split_comma :: "pystr \<Rightarrow> pystr list" where
  "split_comma s = split_on 44 [] s"

text \<open>
  The loop that gathers the skills of all rows:
  \<open>if skills and skills != no_requirement: all_skills.extend(skills.split(','))\<close>.
\<close>

fun all_skills :: "pystr list \<Rightarrow> pystr list" where
  "all_skills [] = []"
| "all_skills (skills # rest) =
     (if skills \<noteq> [] \<and> skills \<noteq> no_requirement then split_comma skills else [])
       @ all_skills rest"

section \<open>Sample documents\<close>

text \<open>The shape of an answer of the service that carries the records \<open>jobs\<close>.\<close>

definition page_of :: "pyval list \<Rightarrow> pyval" where
  "page_of jobs = PDict [(ascii ''data'', PDict [(ascii ''list'', PList jobs)])]"

text \<open>
  Five services for a run over three pages. The first and the third page hold one
  record; the second page is what differs: its request fails, its second record has a
  skill without a description, it holds no record, its \<open>data\<close> is null, or its
  second record has a null description.
\<close>

definition sample_request_error :: "pystr \<Rightarrow> int \<Rightarrow> py_error + pyval" where
  "sample_request_error keyword page =
     (if page = 1 then Inr (page_of [PDict [(ascii ''jobName'', PStr (ascii ''A''))]])
      else if page = 2 then Inl RequestException
      else Inr (page_of [PDict [(ascii ''jobName'', PStr (ascii ''D''))]]))"

definition sample_record_error :: "pystr \<Rightarrow> int \<Rightarrow> py_error + pyval" where
  "sample_record_error keyword page =
     (if page = 1 then Inr (page_of [PDict [(ascii ''jobName'', PStr (ascii ''A''))]])
      else if page = 2 then
        Inr (page_of [PDict [(ascii ''jobName'', PStr (ascii ''B''))],
                      PDict [(ascii ''jobName'', PStr (ascii ''C'')),
                             (ascii ''specialty'', PList [PDict [(ascii ''code'', PInt 7)]])]])
      else Inr (page_of [PDict [(ascii ''jobName'', PStr (ascii ''D''))]]))"

definition sample_empty_page :: "pystr \<Rightarrow> int \<Rightarrow> py_error + pyval" where
  "sample_empty_page keyword page =
     (if page = 1 then Inr (page_of [PDict [(ascii ''jobName'', PStr (ascii ''A''))]])
      else if page = 2 then Inr (page_of [])
      else Inr (page_of [PDict [(ascii ''jobName'', PStr (ascii ''D''))]]))"

definition sample_null_data :: "pystr \<Rightarrow> int \<Rightarrow> py_error + pyval" where
  "sample_null_data keyword page =
     (if page = 1 then Inr (page_of [PDict [(ascii ''jobName'', PStr (ascii ''A''))]])
      else if page = 2 then Inr (PDict [(ascii ''data'', PNone)])
      else Inr (page_of [PDict [(ascii ''jobName'', PStr (ascii ''D''))]]))"

definition sample_null_description :: "pystr \<Rightarrow> int \<Rightarrow> py_error + pyval" where
  "sample_null_description keyword page =
     (if page = 1 then Inr (page_of [PDict [(ascii ''jobName'', PStr (ascii ''A''))]])
      else if page = 2 then
        Inr (page_of [PDict [(ascii ''jobName'', PStr (ascii ''B''))],
                      PDict [(ascii ''jobName'', PStr (ascii ''C'')),
                             (ascii ''description'', PNone)],
                      PDict [(ascii ''jobName'', PStr (ascii ''E''))]])
      else Inr (page_of [PDict [(ascii ''jobName'', PStr (ascii ''D''))]]))"

section \<open>Evaluating the definitions\<close>

lemmas key_defs =
  key_title_def key_company_def key_region_def key_salary_def key_education_def
  key_experience_def key_skills_def key_description_def key_url_def

lemmas listing_defs =
  job_info_def dict_get_def ascii_def skill_str_def truthy_def ebind_def
  description_preview_def job_url_def py_iter_def subscript_key_def py_join_def
  py_format_def

lemmas page_defs =
  try_page_def no_results_def py_in_def py_len_def page_listings_def page_end_def page_of_def

section \<open>Results and exceptions\<close>

lemma pages_before_2: "{1..<2::int} = {1}"
  by auto

lemma pages_1_2: "[1..2::int] = [1, 2]"
  by (simp add: upto_rec1)

lemma ebind_Inr_iff:
  "ebind m f = Inr y \<longleftrightarrow> (\<exists>x. m = Inr x \<and> f x = Inr y)"
  by (cases m) (simp_all add: ebind_def)

section \<open>Reading the numbers of a salary text\<close>

lemma contains_sublist: "contains sub s = sublist sub s"
  by (induction s) (simp_all add: sublist_Cons_right)

lemma scan_digits_elems:
  "\<forall>c\<in>set cur. is_digit c \<Longrightarrow> r \<in> set (scan_digits cur s) \<Longrightarrow>
     r \<noteq> [] \<and> (\<forall>c\<in>set r. is_digit c)"
proof (induction s arbitrary: cur)
  case Nil
  then show ?case by (auto split: if_splits)
next
  case (Cons c cs)
  show ?case
  proof (cases "is_digit c")
    case True
    with Cons.prems have "r \<in> set (scan_digits (cur @ [c]) cs)" by simp
    moreover have "\<forall>d\<in>set (cur @ [c]). is_digit d" using True Cons.prems(1) by simp
    ultimately show ?thesis by (rule Cons.IH [rotated])
  next
    case False
    with Cons.prems(2) have "r = cur \<and> cur \<noteq> [] \<or> r \<in> set (scan_digits [] cs)"
      by (auto split: if_splits)
    then show ?thesis
    proof
      assume "r = cur \<and> cur \<noteq> []"
      then show ?thesis using Cons.prems(1) by simp
    next
      assume "r \<in> set (scan_digits [] cs)"
      then show ?thesis using Cons.IH [of "[]"] by simp
    qed
  qed
qed

lemma findall_digits_elems:
  "r \<in> set (findall_digits s) \<Longrightarrow> r \<noteq> [] \<and> list_all is_digit r"
  unfolding findall_digits_def
  using scan_digits_elems [of "[]" r s] by (simp add: list_all_iff)

lemma scan_digits_skip:
  "\<forall>c\<in>set g. \<not> is_digit c \<Longrightarrow> scan_digits [] (g @ s) = scan_digits [] s"
  by (induction g) simp_all

lemma scan_digits_run:
  "\<forall>c\<in>set r. is_digit c \<Longrightarrow> scan_digits cur (r @ s) = scan_digits (cur @ r) s"
  by (induction r arbitrary: cur) simp_all

lemma scan_digits_flush:
  "cur \<noteq> [] \<Longrightarrow> s = [] \<or> \<not> is_digit (hd s) \<Longrightarrow>
     scan_digits cur s = cur # scan_digits [] s"
  by (cases s) simp_all

lemma weave_starts_with_gap:
  assumes "\<forall>c\<in>set g. \<not> is_digit c" and "rgs = [] \<or> g \<noteq> []"
  shows "weave g rgs = [] \<or> \<not> is_digit (hd (weave g rgs))"
proof (cases rgs)
  case Nil
  then show ?thesis using assms(1) by (cases g) simp_all
next
  case (Cons x rest)
  then have "g \<noteq> []" using assms(2) by simp
  then show ?thesis using assms(1) Cons by (cases g; cases x) simp_all
qed

text \<open>\<open>findall_digits\<close> returns the maximal digit runs, in their order.\<close>

lemma findall_digits_weave:
  assumes "\<forall>c\<in>set g. \<not> is_digit c"
    and "\<forall>(r, g')\<in>set rgs. r \<noteq> [] \<and> (\<forall>c\<in>set r. is_digit c) \<and> (\<forall>c\<in>set g'. \<not> is_digit c)"
    and "separated rgs"
  shows "findall_digits (weave g rgs) = map fst rgs"
  using assms
proof (induction rgs arbitrary: g)
  case Nil
  then show ?case
    using scan_digits_skip [of g "[]"] by (simp add: findall_digits_def)
next
  case (Cons x rest)
  obtain r g' where x: "x = (r, g')" by (cases x)
  from Cons.prems(2) x have r: "r \<noteq> []" "\<forall>c\<in>set r. is_digit c"
    and g': "\<forall>c\<in>set g'. \<not> is_digit c"
    and rest: "\<forall>(r, g')\<in>set rest. r \<noteq> [] \<and> (\<forall>c\<in>set r. is_digit c) \<and> (\<forall>c\<in>set g'. \<not> is_digit c)"
    by auto
  from Cons.prems(3) x have sep: "separated rest" and gap: "rest = [] \<or> g' \<noteq> []"
    by (cases rest; simp)+
  have ih: "scan_digits [] (weave g' rest) = map fst rest"
    using Cons.IH [OF g' rest sep] by (simp add: findall_digits_def)
  have "scan_digits [] (g @ r @ weave g' rest) = scan_digits [] (r @ weave g' rest)"
    using Cons.prems(1) by (rule scan_digits_skip)
  also have "\<dots> = scan_digits ([] @ r) (weave g' rest)"
    using r(2) by (rule scan_digits_run)
  also have "\<dots> = r # scan_digits [] (weave g' rest)"
    using r(1) weave_starts_with_gap [OF g' gap] by (simp add: scan_digits_flush)
  finally show ?case
    using ih x by (simp add: findall_digits_def)
qed

lemma py_int_run:
  assumes "r \<in> set (findall_digits s)" and "within_limit maxd r"
  shows "py_int maxd r = Inr (int (decimal_value r))"
  using findall_digits_elems [OF assms(1)] assms(2)
  by (simp add: py_int_def within_limit_def)

lemma py_int_run_limit:
  assumes "r \<in> set (findall_digits s)" and "\<not> within_limit maxd r"
  shows "py_int maxd r = Inl ValueError"
  using findall_digits_elems [OF assms(1)] assms(2)
  by (simp add: py_int_def within_limit_def)

lemma small_within_limit: "length ds \<le> 640 \<Longrightarrow> within_limit maxd ds"
  by (simp add: within_limit_def)

lemma foldl_nines:
  "foldl (\<lambda>acc c. 10 * acc + digit_value c) a (replicate n 57) + 1 = (a + 1) * 10 ^ n"
proof (induction n arbitrary: a)
  case 0
  show ?case by simp
next
  case (Suc n)
  have "digit_value 57 = 9"
    by (simp add: digit_value_def decimal_digit_def nd_zeros_def)
  then show ?case
    using Suc.IH [of "10 * a + 9"] by (simp add: algebra_simps)
qed

lemma decimal_value_nines: "decimal_value (replicate n 57) + 1 = 10 ^ n"
  using foldl_nines [of 0 n] by (simp add: decimal_value_def)

section \<open>Halving an integer in floating point\<close>

lemma floorlog_eqI:
  assumes "2 ^ k \<le> x" and "x < 2 ^ Suc k"
  shows "floorlog 2 x = Suc k"
proof (rule antisym)
  show "floorlog 2 x \<le> Suc k"
    using assms(2) by (simp add: floorlog_le_iff)
  show "Suc k \<le> floorlog 2 x"
    using assms(1) by (intro floorlog_ge_SucI) simp_all
qed

lemma int_truediv_2_exact:
  assumes "m < 2 ^ 53"
  shows "int_truediv_2 (int m) = Inr (Finite (of_nat m / 2))"
proof -
  have "floorlog 2 m \<le> 53"
    using assms by (simp add: floorlog_le_iff)
  then show ?thesis
    by (simp add: int_truediv_2_def Let_def)
qed

lemma round_shift_error:
  fixes m sh :: nat
  defines "q \<equiv> m div 2 ^ sh" and "r \<equiv> m mod 2 ^ sh"
  defines "q' \<equiv> (if 2 ^ sh < 2 * r \<or> (2 * r = 2 ^ sh \<and> odd q) then q + 1 else q)"
  shows "2 * (q' * 2 ^ sh) \<le> 2 * m + 2 ^ sh \<and> 2 * m \<le> 2 * (q' * 2 ^ sh) + 2 ^ sh"
proof -
  define P :: nat where "P = 2 ^ sh"
  have m: "m = q * P + r"
    unfolding q_def r_def P_def by (rule div_mult_mod_eq [symmetric])
  have r: "r < P"
    by (simp add: r_def P_def)
  have "2 * (q' * P) \<le> 2 * m + P \<and> 2 * m \<le> 2 * (q' * P) + P"
  proof (cases "P < 2 * r \<or> (2 * r = P \<and> odd q)")
    case True
    then have "q' * P = q * P + P" and "P \<le> 2 * r"
      by (auto simp: q'_def P_def algebra_simps)
    then show ?thesis using m r by linarith
  next
    case False
    then have "q' * P = q * P" and "2 * r \<le> P"
      by (auto simp: q'_def P_def)
    then show ?thesis using m by linarith
  qed
  then show ?thesis by (simp add: P_def)
qed

lemma int_truediv_2_unfold:
  assumes "\<not> floorlog 2 m \<le> 53"
  obtains D P :: nat where
    "int_truediv_2 (int m) =
       (if 2 ^ 1025 \<le> D then Inl OverflowError else Inr (Finite (of_nat D / 2)))"
    "2 * D \<le> 2 * m + P" "2 * m \<le> 2 * D + P" "P * 2 ^ 52 \<le> m"
    "P * 2 ^ 52 \<le> D" "P * 2 ^ 52 = 2 ^ (floorlog 2 m - 1)"
proof -
  define sh where "sh = floorlog 2 m - 53"
  define q where "q = m div 2 ^ sh"
  define r where "r = m mod 2 ^ sh"
  define q' where "q' = (if 2 ^ sh < 2 * r \<or> (2 * r = 2 ^ sh \<and> odd q) then q + 1 else q)"
  define D where "D = q' * 2 ^ sh"
  have pos: "0 < m"
    using assms by (auto simp: floorlog_def split: if_splits)
  have res: "int_truediv_2 (int m) =
      (if 2 ^ 1025 \<le> D then Inl OverflowError else Inr (Finite (of_nat D / 2)))"
    using assms pos
    by (simp add: int_truediv_2_def Let_def sh_def q_def r_def q'_def D_def)
  have err: "2 * D \<le> 2 * m + 2 ^ sh \<and> 2 * m \<le> 2 * D + 2 ^ sh"
    unfolding D_def q'_def q_def r_def by (rule round_shift_error)
  have "2 ^ (floorlog 2 m - 1) \<le> m"
    using floorlog_bounds [of m 2] pos by simp
  moreover have "floorlog 2 m - 1 = sh + 52"
    using assms by (simp add: sh_def)
  ultimately have low: "(2::nat) ^ sh * 2 ^ 52 \<le> m"
    and pow: "(2::nat) ^ sh * 2 ^ 52 = 2 ^ (floorlog 2 m - 1)"
    by (simp_all add: power_add)
  have "2 ^ 52 * 2 ^ sh \<le> m"
    using low by (simp add: mult.commute)
  then have "2 ^ 52 \<le> q"
    unfolding q_def by (simp add: less_eq_div_iff_mult_less_eq)
  moreover have "q \<le> q'"
    by (simp add: q'_def)
  ultimately have "2 ^ 52 \<le> q'"
    by (rule order_trans)
  then have "2 ^ 52 * 2 ^ sh \<le> q' * 2 ^ sh"
    by (rule mult_le_mono1)
  then have big: "2 ^ sh * 2 ^ 52 \<le> D"
    by (simp add: D_def mult.commute)
  from res err low big pow show ?thesis
    by (intro that [of D "2 ^ sh"]) simp_all
qed

lemma int_truediv_2_rounded:
  "int_truediv_2 (int m) = Inl OverflowError
   \<or> (\<exists>q. int_truediv_2 (int m) = Inr (Finite q)
          \<and> \<bar>q - of_nat m / 2\<bar> \<le> of_nat m / 2 / 2 ^ 53)"
proof (cases "floorlog 2 m \<le> 53")
  case True
  then have "int_truediv_2 (int m) = Inr (Finite (of_nat m / 2))"
    by (simp add: int_truediv_2_def Let_def)
  then show ?thesis
    by (intro disjI2 exI [of _ "of_nat m / 2"]) simp
next
  case False
  then obtain D P :: nat where
    res: "int_truediv_2 (int m) =
       (if 2 ^ 1025 \<le> D then Inl OverflowError else Inr (Finite (of_nat D / 2)))"
    and up: "2 * D \<le> 2 * m + P" and down: "2 * m \<le> 2 * D + P" and low: "P * 2 ^ 52 \<le> m"
    by (rule int_truediv_2_unfold)
  have "(of_nat (2 * D) :: rat) \<le> of_nat (2 * m + P)"
    using up by (simp only: of_nat_le_iff)
  then have up': "2 * (of_nat D :: rat) \<le> 2 * of_nat m + of_nat P"
    by simp
  have "(of_nat (2 * m) :: rat) \<le> of_nat (2 * D + P)"
    using down by (simp only: of_nat_le_iff)
  then have down': "2 * (of_nat m :: rat) \<le> 2 * of_nat D + of_nat P"
    by simp
  have "(of_nat (P * 2 ^ 52) :: rat) \<le> of_nat m"
    using low by (simp only: of_nat_le_iff)
  then have low': "(of_nat P :: rat) * 4503599627370496 \<le> of_nat m"
    by simp
  have "\<bar>(of_nat D :: rat) / 2 - of_nat m / 2\<bar> \<le> of_nat m / 2 / 9007199254740992"
    using up' down' low' by linarith
  moreover have "(2::rat) ^ 53 = 9007199254740992"
    by simp
  ultimately have bound:
    "\<bar>(of_nat D :: rat) / 2 - of_nat m / 2\<bar> \<le> of_nat m / 2 / 2 ^ 53"
    by (simp only:)
  show ?thesis
  proof (cases "2 ^ 1025 \<le> D")
    case True
    with res have "int_truediv_2 (int m) = Inl OverflowError"
      by (simp only: if_True)
    then show ?thesis by (rule disjI1)
  next
    case False
    with res have "int_truediv_2 (int m) = Inr (Finite (of_nat D / 2))"
      by (simp only: if_False)
    with bound show ?thesis
      by (intro disjI2 exI [of _ "of_nat D / 2"] conjI)
  qed
qed

lemma int_truediv_2_result:
  "int_truediv_2 (int m) = Inl OverflowError \<or> (\<exists>q. int_truediv_2 (int m) = Inr (Finite q))"
  using int_truediv_2_rounded [of m] by auto

lemma int_truediv_2_in_range:
  assumes "m < 2 ^ 1024"
  shows "int_truediv_2 (int m) \<noteq> Inl OverflowError"
proof (cases "floorlog 2 m \<le> 53")
  case True
  then show ?thesis
    by (simp add: int_truediv_2_def Let_def)
next
  case False
  then obtain D P :: nat where
    res: "int_truediv_2 (int m) =
       (if 2 ^ 1025 \<le> D then Inl OverflowError else Inr (Finite (of_nat D / 2)))"
    and up: "2 * D \<le> 2 * m + P" and low: "P * 2 ^ 52 \<le> m"
    by (rule int_truediv_2_unfold)
  have "P \<le> P * 2 ^ 52" by simp
  from this low have "P \<le> m" by (rule order_trans)
  with up have "D \<le> 2 * m" by linarith
  also have "\<dots> < 2 * 2 ^ 1024" using assms by simp
  finally have "D < 2 ^ 1025" by simp
  then show ?thesis using res by simp
qed

lemma int_truediv_2_overflow:
  assumes "2 ^ 1025 \<le> m"
  shows "int_truediv_2 (int m) = Inl OverflowError"
proof -
  have k: "Suc 1025 \<le> floorlog 2 m"
    using assms by (intro floorlog_ge_SucI) simp_all
  then have "\<not> floorlog 2 m \<le> 53" by simp
  then obtain D P :: nat where
    res: "int_truediv_2 (int m) =
       (if 2 ^ 1025 \<le> D then Inl OverflowError else Inr (Finite (of_nat D / 2)))"
    and big: "P * 2 ^ 52 \<le> D" and pow: "P * 2 ^ 52 = 2 ^ (floorlog 2 m - 1)"
    by (rule int_truediv_2_unfold)
  have "(2::nat) ^ 1025 \<le> 2 ^ (floorlog 2 m - 1)"
    using k by (intro power_increasing) simp_all
  with big pow have "2 ^ 1025 \<le> D" by simp
  with res show ?thesis by (simp only: if_True)
qed

section \<open>The salary estimate\<close>

lemmas salary_defs =
  salary_numbers_def remove_commas_def findall_digits_def ascii_def is_digit_def
  decimal_digit_def nd_zeros_def decimal_value_def digit_value_def

lemmas marker_defs =
  has_marker_def contains_sublist [symmetric] marker_negotiable_def marker_hourly_def
  marker_daily_def ascii_def

lemma parse_salary_unfold:
  "parse_salary maxd s =
     (if has_marker s then Inr PNone
      else case salary_numbers s of
        [a] \<Rightarrow> (if within_limit maxd a then Inr (PInt (int (decimal_value a))) else Inl ValueError)
      | [a, b] \<Rightarrow>
          (if within_limit maxd a \<and> within_limit maxd b then
             ebind (int_truediv_2 (int (decimal_value a + decimal_value b)))
               (\<lambda>f. Inr (PFloat f))
           else Inl ValueError)
      | _ \<Rightarrow> Inr PNone)"
proof (cases "has_marker s")
  case True
  then show ?thesis
    by (auto simp: parse_salary_def has_marker_def contains_sublist)
next
  case False
  then have nomark: "\<not> contains marker_negotiable s" "\<not> contains marker_hourly s"
    "\<not> contains marker_daily s"
    by (simp_all add: has_marker_def contains_sublist)
  have run: "\<And>r. r \<in> set (salary_numbers s) \<Longrightarrow>
      py_int maxd r = (if within_limit maxd r then Inr (int (decimal_value r)) else Inl ValueError)"
    unfolding salary_numbers_def
    using py_int_run py_int_run_limit by (metis (full_types))
  consider "salary_numbers s = []" | a where "salary_numbers s = [a]"
    | a b where "salary_numbers s = [a, b]"
    | a b c rest where "salary_numbers s = a # b # c # rest"
    by (metis list.exhaust)
  then show ?thesis
  proof cases
    case 1
    then show ?thesis
      using False nomark by (simp add: parse_salary_def salary_numbers_def)
  next
    case 2
    then show ?thesis
      using False nomark run [of a]
      by (simp add: parse_salary_def salary_numbers_def [symmetric] ebind_def)
  next
    case 3
    then show ?thesis
      using False nomark run [of a] run [of b]
      by (simp add: parse_salary_def salary_numbers_def [symmetric] ebind_def)
  next
    case 4
    then show ?thesis
      using False nomark by (simp add: parse_salary_def salary_numbers_def [symmetric])
  qed
qed

lemma parse_salary_two:
  assumes "\<not> has_marker s" and "salary_numbers s = [ra, rb]"
    and "within_limit maxd ra" and "within_limit maxd rb"
  shows "parse_salary maxd s =
     ebind (int_truediv_2 (int (decimal_value ra + decimal_value rb))) (\<lambda>f. Inr (PFloat f))"
  using assms by (simp add: parse_salary_unfold del: of_nat_add)

lemma parse_salary_two_exact:
  assumes "\<not> has_marker s" and "salary_numbers s = [ra, rb]"
    and "within_limit maxd ra" and "within_limit maxd rb"
    and "decimal_value ra + decimal_value rb < 2 ^ 53"
  shows "parse_salary maxd s
           = Inr (PFloat (Finite (of_nat (decimal_value ra + decimal_value rb) / 2)))"
  unfolding parse_salary_two [OF assms(1-4)] int_truediv_2_exact [OF assms(5)]
  by (simp add: ebind_def)

lemma salary_example_range:
  "parse_salary maxd ([0x6708, 0x85AA] @ ascii ''30,000~50,000'' @ [0x5143])
     = Inr (PFloat (Finite 40000))"
proof -
  let ?s = "[0x6708, 0x85AA] @ ascii ''30,000~50,000'' @ [0x5143]"
  have "\<not> has_marker ?s"
    by (simp add: marker_defs)
  moreover have "salary_numbers ?s = [ascii ''30000'', ascii ''50000'']"
    by (simp add: salary_defs)
  moreover have "decimal_value (ascii ''30000'') = 30000" "decimal_value (ascii ''50000'') = 50000"
    by (simp_all add: salary_defs)
  moreover have "within_limit maxd (ascii ''30000'')" "within_limit maxd (ascii ''50000'')"
    by (simp_all add: small_within_limit ascii_def)
  moreover have "int_truediv_2 (int 80000) = Inr (Finite (of_nat 80000 / 2))"
    by (rule int_truediv_2_exact) simp
  ultimately show ?thesis
    by (simp add: parse_salary_unfold ebind_def)
qed

lemma salary_example_floor:
  "parse_salary maxd (ascii ''40000'' @ [0x5143, 0x4EE5, 0x4E0A]) = Inr (PInt 40000)"
proof -
  let ?s = "ascii ''40000'' @ [0x5143, 0x4EE5, 0x4E0A]"
  have "\<not> has_marker ?s"
    by (simp add: marker_defs)
  moreover have "salary_numbers ?s = [ascii ''40000'']"
    by (simp add: salary_defs)
  moreover have "decimal_value (ascii ''40000'') = 40000"
    by (simp add: salary_defs)
  moreover have "within_limit maxd (ascii ''40000'')"
    by (simp add: small_within_limit ascii_def)
  ultimately show ?thesis
    by (simp add: parse_salary_unfold)
qed

lemma salary_example_negotiable: "parse_salary maxd [0x9762, 0x8B70] = Inr PNone"
proof -
  have "has_marker [0x9762, 0x8B70]" by (simp add: marker_defs)
  then show ?thesis by (simp add: parse_salary_unfold)
qed

lemma salary_example_hourly:
  "parse_salary maxd ([0x6642, 0x85AA] @ ascii ''150'' @ [0x5143]) = Inr PNone"
proof -
  have "has_marker ([0x6642, 0x85AA] @ ascii ''150'' @ [0x5143])" by (simp add: marker_defs)
  then show ?thesis by (simp add: parse_salary_unfold)
qed

lemma salary_example_no_number: "parse_salary maxd [0x5F85, 0x9047, 0x512A] = Inr PNone"
proof -
  have "\<not> has_marker [0x5F85, 0x9047, 0x512A]" by (simp add: marker_defs)
  moreover have "salary_numbers [0x5F85, 0x9047, 0x512A] = []" by (simp add: salary_defs)
  ultimately show ?thesis by (simp add: parse_salary_unfold)
qed

text \<open>A run of 4301 digits is beyond the default limit of 4300.\<close>

lemma parse_salary_long_run: "parse_salary 4300 (replicate 4301 57) = Inl ValueError"
proof -
  let ?s = "replicate 4301 57 :: pystr"
  have 1: "\<not> has_marker ?s"
  proof
    assume "has_marker ?s"
    then have "set marker_negotiable \<subseteq> set ?s \<or> set marker_hourly \<subseteq> set ?s
        \<or> set marker_daily \<subseteq> set ?s"
      unfolding has_marker_def using set_mono_sublist by blast
    then show False
      by (simp add: marker_negotiable_def marker_hourly_def marker_daily_def)
  qed
  let ?rgs = "[(?s, [])] :: (pystr \<times> pystr) list"
  have "is_digit 57"
    by (simp add: is_digit_def decimal_digit_def nd_zeros_def)
  then have "findall_digits (weave [] ?rgs) = map fst ?rgs"
    by (intro findall_digits_weave) simp_all
  moreover have "remove_commas ?s = weave [] ?rgs"
    by (simp add: remove_commas_def)
  ultimately have 2: "salary_numbers ?s = [?s]"
    by (simp add: salary_numbers_def)
  have "\<not> within_limit 4300 ?s"
    by (simp add: within_limit_def)
  with 1 2 show ?thesis
    by (simp add: parse_salary_unfold)
qed

text \<open>
  Claim C1, as the code has it. A text that contains the negotiable marker, the hourly
  marker or the daily marker gives \<open>None\<close>. Otherwise, with the commas removed and
  the digit runs within the interpreter's limit on integer strings: two runs \<open>a\<close>
  and \<open>b\<close> with \<open>a + b < 2 ^ 53\<close> give exactly their arithmetic mean, one run gives
  its value, and no run or more than two give \<open>None\<close>. A number is returned exactly
  when the text has no marker and has one run, or two runs whose halved sum is in the
  range of a float, the runs being within the limit. The five texts of the
  specification give 40000, 40000, \<open>None\<close>, \<open>None\<close> and \<open>None\<close>.
\<close>

theorem parse_salary_cases:
  "(has_marker s \<longrightarrow> parse_salary maxd s = Inr PNone)
   \<and> (\<not> has_marker s \<longrightarrow>
        (\<forall>a b. salary_numbers s = [a, b] \<and> within_limit maxd a \<and> within_limit maxd b
             \<and> decimal_value a + decimal_value b < 2 ^ 53 \<longrightarrow>
           parse_salary maxd s
             = Inr (PFloat (Finite (of_nat (decimal_value a + decimal_value b) / 2))))
      \<and> (\<forall>a. salary_numbers s = [a] \<and> within_limit maxd a \<longrightarrow>
           parse_salary maxd s = Inr (PInt (int (decimal_value a))))
      \<and> (length (salary_numbers s) \<noteq> 1 \<and> length (salary_numbers s) \<noteq> 2 \<longrightarrow>
           parse_salary maxd s = Inr PNone))
   \<and> ((\<exists>v. parse_salary maxd s = Inr v \<and> v \<noteq> PNone) \<longleftrightarrow>
        \<not> has_marker s
        \<and> ((\<exists>a. salary_numbers s = [a] \<and> within_limit maxd a)
           \<or> (\<exists>a b. salary_numbers s = [a, b] \<and> within_limit maxd a \<and> within_limit maxd b
                \<and> int_truediv_2 (int (decimal_value a + decimal_value b)) \<noteq> Inl OverflowError)))
   \<and> parse_salary maxd ([0x6708, 0x85AA] @ ascii ''30,000~50,000'' @ [0x5143])
        = Inr (PFloat (Finite 40000))
   \<and> parse_salary maxd (ascii ''40000'' @ [0x5143, 0x4EE5, 0x4E0A]) = Inr (PInt 40000)
   \<and> parse_salary maxd [0x9762, 0x8B70] = Inr PNone
   \<and> parse_salary maxd ([0x6642, 0x85AA] @ ascii ''150'' @ [0x5143]) = Inr PNone
   \<and> parse_salary maxd [0x5F85, 0x9047, 0x512A] = Inr PNone"
proof -
  have marked: "has_marker s \<longrightarrow> parse_salary maxd s = Inr PNone"
    by (simp add: parse_salary_unfold)
  have two: "\<forall>a b. salary_numbers s = [a, b] \<and> within_limit maxd a \<and> within_limit maxd b
             \<and> decimal_value a + decimal_value b < 2 ^ 53 \<longrightarrow>
           parse_salary maxd s
             = Inr (PFloat (Finite (of_nat (decimal_value a + decimal_value b) / 2)))"
    if "\<not> has_marker s"
    using that parse_salary_two_exact by blast
  have one: "\<forall>a. salary_numbers s = [a] \<and> within_limit maxd a \<longrightarrow>
           parse_salary maxd s = Inr (PInt (int (decimal_value a)))"
    if "\<not> has_marker s"
    using that by (simp add: parse_salary_unfold)
  have other: "length (salary_numbers s) \<noteq> 1 \<and> length (salary_numbers s) \<noteq> 2 \<longrightarrow>
           parse_salary maxd s = Inr PNone"
    if "\<not> has_marker s"
  proof (cases "salary_numbers s")
    case Nil
    then show ?thesis using that by (simp add: parse_salary_unfold)
  next
    case (Cons a as)
    note outer = this
    show ?thesis
    proof (cases as)
      case Nil
      then show ?thesis using outer by simp
    next
      case (Cons b bs)
      then show ?thesis using outer that by (cases bs) (simp_all add: parse_salary_unfold)
    qed
  qed
  have iff: "(\<exists>v. parse_salary maxd s = Inr v \<and> v \<noteq> PNone) \<longleftrightarrow>
        \<not> has_marker s
        \<and> ((\<exists>a. salary_numbers s = [a] \<and> within_limit maxd a)
           \<or> (\<exists>a b. salary_numbers s = [a, b] \<and> within_limit maxd a \<and> within_limit maxd b
                \<and> int_truediv_2 (int (decimal_value a + decimal_value b)) \<noteq> Inl OverflowError))"
  proof (cases "has_marker s")
    case True
    then show ?thesis by (simp add: parse_salary_unfold)
  next
    case False
    consider "salary_numbers s = []" | a where "salary_numbers s = [a]"
      | a b where "salary_numbers s = [a, b]"
      | a b c rest where "salary_numbers s = a # b # c # rest"
      by (metis list.exhaust)
    then show ?thesis
    proof cases
      case 1
      then show ?thesis using False by (simp add: parse_salary_unfold)
    next
      case 2
      then show ?thesis using False by (simp add: parse_salary_unfold)
    next
      case 3
      define m where "m = decimal_value a + decimal_value b"
      have p: "parse_salary maxd s =
          (if within_limit maxd a \<and> within_limit maxd b then
             ebind (int_truediv_2 (int m)) (\<lambda>f. Inr (PFloat f))
           else Inl ValueError)"
        using False 3 by (simp add: parse_salary_unfold m_def del: of_nat_add)
      have "(\<exists>v. parse_salary maxd s = Inr v \<and> v \<noteq> PNone) \<longleftrightarrow>
          within_limit maxd a \<and> within_limit maxd b \<and> int_truediv_2 (int m) \<noteq> Inl OverflowError"
        using int_truediv_2_result [of m] by (auto simp: p ebind_def)
      then show ?thesis
        using False 3 by (simp add: m_def del: of_nat_add)
    next
      case 4
      then show ?thesis using False by (simp add: parse_salary_unfold)
    qed
  qed
  from marked two one other iff show ?thesis
    by (intro conjI impI)
      (blast, blast, blast, blast, blast, rule salary_example_range, rule salary_example_floor,
        rule salary_example_negotiable, rule salary_example_hourly, rule salary_example_no_number)
qed

theorem parse_salary_cases_witness:
  "has_marker ([0x65E5, 0x85AA] @ ascii ''1,500'')
   \<and> parse_salary 4300 ([0x65E5, 0x85AA] @ ascii ''1,500'') = Inr PNone
   \<and> \<not> has_marker (ascii ''28,000~35,001'')
   \<and> salary_numbers (ascii ''28,000~35,001'') = [ascii ''28000'', ascii ''35001'']
   \<and> within_limit 4300 (ascii ''28000'') \<and> within_limit 4300 (ascii ''35001'')
   \<and> decimal_value (ascii ''28000'') + decimal_value (ascii ''35001'') < 2 ^ 53
   \<and> parse_salary 4300 (ascii ''28,000~35,001'') = Inr (PFloat (Finite (63001 / 2)))
   \<and> \<not> has_marker (ascii ''45000+'')
   \<and> salary_numbers (ascii ''45000+'') = [ascii ''45000'']
   \<and> within_limit 4300 (ascii ''45000'')
   \<and> parse_salary 4300 (ascii ''45000+'') = Inr (PInt 45000)
   \<and> \<not> has_marker (ascii ''3/4/5'')
   \<and> length (salary_numbers (ascii ''3/4/5'')) = 3
   \<and> parse_salary 4300 (ascii ''3/4/5'') = Inr PNone"
proof -
  have a: "has_marker ([0x65E5, 0x85AA] @ ascii ''1,500'')"
    by (simp add: marker_defs)
  have b: "\<not> has_marker (ascii ''28,000~35,001'')"
    "salary_numbers (ascii ''28,000~35,001'') = [ascii ''28000'', ascii ''35001'']"
    "within_limit 4300 (ascii ''28000'')" "within_limit 4300 (ascii ''35001'')"
    by (simp_all add: marker_defs salary_defs small_within_limit)
  have bv: "decimal_value (ascii ''28000'') = 28000" "decimal_value (ascii ''35001'') = 35001"
    by (simp_all add: salary_defs)
  have c: "\<not> has_marker (ascii ''45000+'')"
    "salary_numbers (ascii ''45000+'') = [ascii ''45000'']"
    "within_limit 4300 (ascii ''45000'')"
    by (simp_all add: marker_defs salary_defs small_within_limit)
  have cv: "decimal_value (ascii ''45000'') = 45000"
    by (simp add: salary_defs)
  have d: "\<not> has_marker (ascii ''3/4/5'')" "length (salary_numbers (ascii ''3/4/5'')) = 3"
    by (simp_all add: marker_defs salary_defs)
  show ?thesis
    using parse_salary_cases [of "[0x65E5, 0x85AA] @ ascii ''1,500''" 4300]
      parse_salary_cases [of "ascii ''28,000~35,001''" 4300]
      parse_salary_cases [of "ascii ''45000+''" 4300]
      parse_salary_cases [of "ascii ''3/4/5''" 4300]
      a b c d
    by (simp add: bv cv)
qed

theorem parse_salary_rounded_counterexample:
  "\<not> has_marker (ascii ''9007199254740993~0'')
   \<and> salary_numbers (ascii ''9007199254740993~0'') = [ascii ''9007199254740993'', ascii ''0'']
   \<and> decimal_value (ascii ''9007199254740993'') = 9007199254740993
   \<and> decimal_value (ascii ''0'') = 0
   \<and> parse_salary 4300 (ascii ''9007199254740993~0'') = Inr (PFloat (Finite 4503599627370496))
   \<and> (4503599627370496 :: rat) \<noteq> (9007199254740993 + 0) / 2"
proof -
  let ?s = "ascii ''9007199254740993~0''"
  have 1: "\<not> has_marker ?s"
    by (simp add: marker_defs)
  have 2: "salary_numbers ?s = [ascii ''9007199254740993'', ascii ''0'']"
    by (simp add: salary_defs)
  have 3: "within_limit 4300 (ascii ''9007199254740993'')" "within_limit 4300 (ascii ''0'')"
    by (simp_all add: small_within_limit ascii_def)
  have 4: "decimal_value (ascii ''9007199254740993'') = 9007199254740993"
    "decimal_value (ascii ''0'') = 0"
    by (simp_all add: salary_defs)
  have "floorlog 2 (9007199254740993::nat) = Suc 53"
    by (rule floorlog_eqI) simp_all
  then have "int_truediv_2 (int 9007199254740993) = Inr (Finite 4503599627370496)"
    by (simp add: int_truediv_2_def Let_def)
  then have "parse_salary 4300 ?s = Inr (PFloat (Finite 4503599627370496))"
    by (simp add: parse_salary_two [OF 1 2 3] 4 ebind_def)
  with 1 2 4 show ?thesis by simp
qed

text \<open>
  Claim C6, as the code has it. For a text without marker and with exactly two digit
  runs \<open>a\<close> and \<open>b\<close>, both within the interpreter's limit on integer strings, the
  result is exactly \<open>(a + b) / 2\<close> when \<open>a + b < 2 ^ 53\<close>; when
  \<open>a + b < 2 ^ 1024\<close> it is a float within the relative error \<open>2 ^ -53\<close> of
  \<open>(a + b) / 2\<close>; from \<open>a + b = 2 ^ 1025\<close> on the division raises
  \<open>OverflowError\<close> and nothing is returned.
\<close>

theorem parse_salary_mean:
  assumes "\<not> has_marker s" and "salary_numbers s = [ra, rb]"
    and "within_limit maxd ra" and "within_limit maxd rb"
  shows "(decimal_value ra + decimal_value rb < 2 ^ 53 \<longrightarrow>
            parse_salary maxd s
              = Inr (PFloat (Finite (of_nat (decimal_value ra + decimal_value rb) / 2))))
       \<and> (decimal_value ra + decimal_value rb < 2 ^ 1024 \<longrightarrow>
            (\<exists>q. parse_salary maxd s = Inr (PFloat (Finite q))
               \<and> \<bar>q - of_nat (decimal_value ra + decimal_value rb) / 2\<bar>
                    \<le> of_nat (decimal_value ra + decimal_value rb) / 2 / 2 ^ 53))
       \<and> (2 ^ 1025 \<le> decimal_value ra + decimal_value rb \<longrightarrow>
            parse_salary maxd s = Inl OverflowError)
       \<and> (parse_salary maxd s = Inl OverflowError
            \<or> (\<exists>q. parse_salary maxd s = Inr (PFloat (Finite q))
                  \<and> \<bar>q - of_nat (decimal_value ra + decimal_value rb) / 2\<bar>
                       \<le> of_nat (decimal_value ra + decimal_value rb) / 2 / 2 ^ 53))"
proof -
  define m where "m = decimal_value ra + decimal_value rb"
  have p: "parse_salary maxd s = ebind (int_truediv_2 (int m)) (\<lambda>f. Inr (PFloat f))"
    unfolding m_def using assms by (rule parse_salary_two)
  have exact: "m < 2 ^ 53 \<longrightarrow> parse_salary maxd s = Inr (PFloat (Finite (of_nat m / 2)))"
    by (simp add: p int_truediv_2_exact ebind_def)
  have any: "parse_salary maxd s = Inl OverflowError
      \<or> (\<exists>q. parse_salary maxd s = Inr (PFloat (Finite q))
            \<and> \<bar>q - of_nat m / 2\<bar> \<le> of_nat m / 2 / 2 ^ 53)"
  proof -
    from int_truediv_2_rounded [of m] show ?thesis
    proof
      assume "int_truediv_2 (int m) = Inl OverflowError"
      then show ?thesis by (simp add: p ebind_def)
    next
      assume "\<exists>q. int_truediv_2 (int m) = Inr (Finite q)
          \<and> \<bar>q - of_nat m / 2\<bar> \<le> of_nat m / 2 / 2 ^ 53"
      then obtain q where "int_truediv_2 (int m) = Inr (Finite q)"
        and "\<bar>q - of_nat m / 2\<bar> \<le> of_nat m / 2 / 2 ^ 53"
        by blast
      then have "parse_salary maxd s = Inr (PFloat (Finite q))
          \<and> \<bar>q - of_nat m / 2\<bar> \<le> of_nat m / 2 / 2 ^ 53"
        by (simp add: p ebind_def)
      then show ?thesis by blast
    qed
  qed
  have over: "2 ^ 1025 \<le> m \<longrightarrow> parse_salary maxd s = Inl OverflowError"
    by (simp add: p int_truediv_2_overflow ebind_def)
  have "m < 2 ^ 1024 \<longrightarrow> parse_salary maxd s \<noteq> Inl OverflowError"
  proof
    assume "m < 2 ^ 1024"
    then have "int_truediv_2 (int m) \<noteq> Inl OverflowError"
      by (rule int_truediv_2_in_range)
    then show "parse_salary maxd s \<noteq> Inl OverflowError"
      by (cases "int_truediv_2 (int m)") (simp_all add: p ebind_def)
  qed
  with any have range: "m < 2 ^ 1024 \<longrightarrow>
      (\<exists>q. parse_salary maxd s = Inr (PFloat (Finite q))
         \<and> \<bar>q - of_nat m / 2\<bar> \<le> of_nat m / 2 / 2 ^ 53)"
    by blast
  from exact range over any show ?thesis
    unfolding m_def by (intro conjI)
qed

theorem parse_salary_mean_witness:
  "\<not> has_marker (ascii ''30,000~45,001'')
   \<and> salary_numbers (ascii ''30,000~45,001'') = [ascii ''30000'', ascii ''45001'']
   \<and> within_limit 4300 (ascii ''30000'') \<and> within_limit 4300 (ascii ''45001'')
   \<and> decimal_value (ascii ''30000'') + decimal_value (ascii ''45001'') < 2 ^ 53
   \<and> parse_salary 4300 (ascii ''30,000~45,001'') = Inr (PFloat (Finite (75001 / 2)))"
proof -
  have 1: "\<not> has_marker (ascii ''30,000~45,001'')"
    by (simp add: marker_defs)
  have 2: "salary_numbers (ascii ''30,000~45,001'') = [ascii ''30000'', ascii ''45001'']"
    by (simp add: salary_defs)
  have 3: "within_limit 4300 (ascii ''30000'')" "within_limit 4300 (ascii ''45001'')"
    by (simp_all add: small_within_limit ascii_def)
  have 4: "decimal_value (ascii ''30000'') = 30000" "decimal_value (ascii ''45001'') = 45001"
    by (simp_all add: salary_defs)
  show ?thesis
    using parse_salary_mean [OF 1 2 3] 1 2 3 by (simp add: 4)
qed

theorem parse_salary_overflow_counterexample:
  "\<not> has_marker (replicate 309 57 @ ascii ''~1'')
   \<and> salary_numbers (replicate 309 57 @ ascii ''~1'') = [replicate 309 57, ascii ''1'']
   \<and> within_limit 4300 (replicate 309 57) \<and> within_limit 4300 (ascii ''1'')
   \<and> parse_salary 4300 (replicate 309 57 @ ascii ''~1'') = Inl OverflowError"
proof -
  let ?s = "replicate 309 57 @ ascii ''~1''"
  have set: "set ?s = {57, 126, 49}"
    by (auto simp: ascii_def)
  have 1: "\<not> has_marker ?s"
  proof
    assume "has_marker ?s"
    then have "set marker_negotiable \<subseteq> set ?s \<or> set marker_hourly \<subseteq> set ?s
        \<or> set marker_daily \<subseteq> set ?s"
      unfolding has_marker_def using set_mono_sublist by blast
    then show False
      unfolding set by (simp add: marker_negotiable_def marker_hourly_def marker_daily_def)
  qed
  have digits: "is_digit 57" "is_digit 49" "\<not> is_digit 126"
    by (simp_all add: is_digit_def decimal_digit_def nd_zeros_def)
  let ?rgs = "[(replicate 309 57, [126]), ([49], [])] :: (pystr \<times> pystr) list"
  have "remove_commas ?s = weave [] ?rgs"
    by (simp add: remove_commas_def ascii_def)
  moreover have "findall_digits (weave [] ?rgs) = map fst ?rgs"
    using digits by (intro findall_digits_weave) simp_all
  ultimately have 2: "salary_numbers ?s = [replicate 309 57, ascii ''1'']"
    by (simp add: salary_numbers_def ascii_def)
  have 3: "within_limit 4300 (replicate 309 57)" "within_limit 4300 (ascii ''1'')"
    by (simp_all add: small_within_limit ascii_def)
  have "decimal_value (ascii ''1'') = 1"
    by (simp add: salary_defs)
  then have "decimal_value (replicate 309 57) + decimal_value (ascii ''1'') = 10 ^ 309"
    using decimal_value_nines [of 309] by simp
  moreover have "(2::nat) ^ 1025 \<le> 10 ^ 309"
    by simp
  ultimately have "2 ^ 1025 \<le> decimal_value (replicate 309 57) + decimal_value (ascii ''1'')"
    by (simp only:)
  then have "parse_salary 4300 ?s = Inl OverflowError"
    by (simp add: parse_salary_two [OF 1 2 3] int_truediv_2_overflow ebind_def del: of_nat_add)
  with 1 2 3 show ?thesis by simp
qed

section \<open>The region code\<close>

text \<open>
  Claim C8. For every region text, the derived region code is the first three
  characters of the text, and has length exactly 3, when the text has at least three
  characters; it is the whole text when the text has fewer than three.
\<close>

theorem region_code_prefix:
  "(3 \<le> length s \<longrightarrow>
      (\<exists>t. region_code (PStr s) = Inr (PStr t) \<and> length t = 3 \<and> prefix t s))
   \<and> (length s < 3 \<longrightarrow> region_code (PStr s) = Inr (PStr s))"
  by (auto simp: region_code_def take_is_prefix)

theorem region_code_prefix_witness:
  "3 \<le> length [0x53F0, 0x5317, 0x5E02, 0x4FE1, 0x7FA9, 0x5340 :: nat]
   \<and> (\<exists>t. region_code (PStr [0x53F0, 0x5317, 0x5E02, 0x4FE1, 0x7FA9, 0x5340]) = Inr (PStr t)
          \<and> length t = 3 \<and> prefix t [0x53F0, 0x5317, 0x5E02, 0x4FE1, 0x7FA9, 0x5340])
   \<and> length [0x53F0 :: nat] < 3
   \<and> region_code (PStr [0x53F0]) = Inr (PStr [0x53F0])"
  using region_code_prefix [of "[0x53F0, 0x5317, 0x5E02, 0x4FE1, 0x7FA9, 0x5340]"]
    region_code_prefix [of "[0x53F0]"]
  by simp

section \<open>Skills: joining and splitting\<close>

text \<open>
  Claim C9. A record whose skill descriptors are "Python" and "SQL" gets the skills
  text "Python,SQL", and splitting that text on commas gives "Python" and "SQL" in
  this order. A record whose descriptor list is empty, or which has none, gets the
  text that stands for "no skill required", and that text gives no token.
\<close>

theorem skills_round_trip:
  "map_sum id (\<lambda>info. map_of info key_skills)
     (job_info str_of (PDict [(ascii ''specialty'',
        PList [PDict [(ascii ''description'', PStr (ascii ''Python''))],
               PDict [(ascii ''description'', PStr (ascii ''SQL''))]])]))
     = Inr (Some (PStr (ascii ''Python,SQL'')))
   \<and> all_skills [ascii ''Python,SQL''] = [ascii ''Python'', ascii ''SQL'']
   \<and> map_sum id (\<lambda>info. map_of info key_skills)
        (job_info str_of (PDict [(ascii ''specialty'', PList [])]))
        = Inr (Some (PStr no_requirement))
   \<and> map_sum id (\<lambda>info. map_of info key_skills) (job_info str_of (PDict []))
        = Inr (Some (PStr no_requirement))
   \<and> all_skills [no_requirement] = []"
proof (intro conjI)
  show "map_sum id (\<lambda>info. map_of info key_skills)
     (job_info str_of (PDict [(ascii ''specialty'',
        PList [PDict [(ascii ''description'', PStr (ascii ''Python''))],
               PDict [(ascii ''description'', PStr (ascii ''SQL''))]])]))
     = Inr (Some (PStr (ascii ''Python,SQL'')))"
    by (simp add: listing_defs key_defs)
  show "all_skills [ascii ''Python,SQL''] = [ascii ''Python'', ascii ''SQL'']"
    by (simp add: ascii_def split_comma_def no_requirement_def)
  show "map_sum id (\<lambda>info. map_of info key_skills)
        (job_info str_of (PDict [(ascii ''specialty'', PList [])]))
        = Inr (Some (PStr no_requirement))"
    by (simp add: listing_defs key_defs)
  show "map_sum id (\<lambda>info. map_of info key_skills) (job_info str_of (PDict []))
        = Inr (Some (PStr no_requirement))"
    by (simp add: listing_defs key_defs)
  show "all_skills [no_requirement] = []"
    by simp
qed

section \<open>The fields of a listing\<close>

lemma job_info_Inr:
  assumes "job_info str_of job = Inr info"
  obtains kvs skills preview url where
    "job = PDict kvs"
    "skill_str (dict_get kvs (ascii ''specialty'') (PList [])) = Inr skills"
    "description_preview (dict_get kvs (ascii ''description'') (PStr [])) = Inr preview"
    "job_url str_of (dict_get kvs (ascii ''link'') PNone) = Inr url"
    "info = [(key_title, dict_get kvs (ascii ''jobName'') PNone),
             (key_company, dict_get kvs (ascii ''custName'') PNone),
             (key_region, dict_get kvs (ascii ''jobAddrNoDesc'') PNone),
             (key_salary, dict_get kvs (ascii ''salaryDesc'') PNone),
             (key_education, dict_get kvs (ascii ''optionEdu'') PNone),
             (key_experience, dict_get kvs (ascii ''periodDesc'') PNone),
             (key_skills, PStr skills),
             (key_description, PStr preview),
             (key_url, PStr url)]"
  using assms unfolding job_info_def
  by (cases job) (auto simp: ebind_Inr_iff)

text \<open>
  Claim C7. For every description string, the description preview of the listing is
  the first 100 characters of the description followed by the truncation marker when
  the description is longer than 100 characters, and the whole description followed
  by the marker, which is appended all the same, when it has 100 characters or fewer.
\<close>

theorem description_preview_marker:
  assumes "map_of kvs (ascii ''description'') = Some (PStr d)"
    and "job_info str_of (PDict kvs) = Inr info"
  shows "(100 < length d \<longrightarrow>
           (\<exists>p. map_of info key_description = Some (PStr (p @ ascii ''...''))
                \<and> length p = 100 \<and> prefix p d))
         \<and> (length d \<le> 100 \<longrightarrow>
              map_of info key_description = Some (PStr (d @ ascii ''...'')))"
proof -
  from assms(2) obtain preview where
    p: "description_preview (dict_get kvs (ascii ''description'') (PStr [])) = Inr preview"
    and "map_of info key_description = Some (PStr preview)"
    by (rule job_info_Inr) (simp add: key_defs)
  moreover from p assms(1) have "preview = take 100 d @ ascii ''...''"
    by (simp add: dict_get_def description_preview_def)
  ultimately show ?thesis
    by (auto simp: take_is_prefix)
qed

theorem description_preview_marker_witness:
  "(\<exists>info p. job_info (\<lambda>v. []) (PDict [(ascii ''description'', PStr (replicate 101 97))]) = Inr info
       \<and> 100 < length (replicate 101 (97::nat))
       \<and> map_of info key_description = Some (PStr (p @ ascii ''...''))
       \<and> length p = 100 \<and> prefix p (replicate 101 97))
   \<and> (\<exists>info. job_info (\<lambda>v. []) (PDict [(ascii ''description'', PStr (ascii ''Data team''))]) = Inr info
       \<and> length (ascii ''Data team'') \<le> 100
       \<and> map_of info key_description = Some (PStr (ascii ''Data team...'')))"
proof -
  let ?long = "[(ascii ''description'', PStr (replicate 101 97))]"
  let ?short = "[(ascii ''description'', PStr (ascii ''Data team''))]"
  have l1: "map_of ?long (ascii ''description'') = Some (PStr (replicate 101 97))"
    by simp
  obtain i1 where l2: "job_info (\<lambda>v. []) (PDict ?long) = Inr i1"
    by (simp add: listing_defs)
  have s1: "map_of ?short (ascii ''description'') = Some (PStr (ascii ''Data team''))"
    by simp
  obtain i2 where s2: "job_info (\<lambda>v. []) (PDict ?short) = Inr i2"
    by (simp add: listing_defs)
  show ?thesis
    using description_preview_marker [OF l1 l2] description_preview_marker [OF s1 s2] l2 s2
    by (simp add: ascii_def)
qed

text \<open>
  Claim C4, as the code has it. Every listing built from a record has the nine keys,
  each once. Title and company are what the record holds under \<open>jobName\<close> and
  \<open>custName\<close>, and \<open>None\<close> when the record has no such field: no empty string stands
  in for a missing title or company. Skills, description preview and address are
  always strings; for a record without \<open>specialty\<close>, \<open>description\<close> or \<open>link\<close> they
  are the no-requirement text, the bare truncation marker and the empty string.
\<close>

theorem listing_shape:
  assumes "job_info str_of (PDict kvs) = Inr info"
  shows "map fst info = [key_title, key_company, key_region, key_salary, key_education,
                         key_experience, key_skills, key_description, key_url]
     \<and> distinct (map fst info)
     \<and> map_of info key_title = Some (case map_of kvs (ascii ''jobName'') of None \<Rightarrow> PNone | Some v \<Rightarrow> v)
     \<and> map_of info key_company = Some (case map_of kvs (ascii ''custName'') of None \<Rightarrow> PNone | Some v \<Rightarrow> v)
     \<and> (\<exists>s p u. map_of info key_skills = Some (PStr s)
            \<and> map_of info key_description = Some (PStr p)
            \<and> map_of info key_url = Some (PStr u))
     \<and> (map_of kvs (ascii ''specialty'') = None \<longrightarrow>
            map_of info key_skills = Some (PStr no_requirement))
     \<and> (map_of kvs (ascii ''description'') = None \<longrightarrow>
            map_of info key_description = Some (PStr (ascii ''...'')))
     \<and> (map_of kvs (ascii ''link'') = None \<longrightarrow> map_of info key_url = Some (PStr []))"
  using assms
  by (rule job_info_Inr)
    (auto simp: key_defs dict_get_def skill_str_def truthy_def description_preview_def
      job_url_def)

theorem listing_shape_witness:
  "\<exists>info. job_info (\<lambda>v. []) (PDict [(ascii ''custName'', PStr (ascii ''EduCat''))]) = Inr info
     \<and> map fst info = [key_title, key_company, key_region, key_salary, key_education,
                        key_experience, key_skills, key_description, key_url]
     \<and> map_of info key_title = Some PNone
     \<and> map_of info key_company = Some (PStr (ascii ''EduCat''))
     \<and> map_of [(ascii ''custName'', PStr (ascii ''EduCat''))] (ascii ''specialty'') = None
     \<and> map_of info key_skills = Some (PStr no_requirement)
     \<and> map_of [(ascii ''custName'', PStr (ascii ''EduCat''))] (ascii ''description'') = None
     \<and> map_of info key_description = Some (PStr (ascii ''...''))
     \<and> map_of [(ascii ''custName'', PStr (ascii ''EduCat''))] (ascii ''link'') = None
     \<and> map_of info key_url = Some (PStr [])"
proof -
  obtain info where
    i: "job_info (\<lambda>v. []) (PDict [(ascii ''custName'', PStr (ascii ''EduCat''))]) = Inr info"
    by (simp add: listing_defs)
  show ?thesis
    using listing_shape [OF i] i by (simp add: ascii_def)
qed

theorem listing_null_title_counterexample:
  "map_sum id (\<lambda>info. (map_of info key_title, map_of info key_company))
     (job_info (\<lambda>v. []) (PDict [(ascii ''salaryDesc'', PStr marker_negotiable)]))
     = Inr (Some PNone, Some PNone)"
  by (simp add: listing_defs key_defs)

text \<open>
  Claim C5, at a record whose link object has no job path. The claim asks for an
  empty address; the address built is \<open>https:None\<close>.
\<close>

theorem url_of_link_without_job:
  "map_sum id (\<lambda>info. map_of info key_url)
     (job_info str_of (PDict [(ascii ''link'',
        PDict [(ascii ''cust'', PStr (ascii ''//www.104.com.tw/company/1a2x6bj''))])]))
     = Inr (Some (PStr (ascii ''https:None'')))"
  by (simp add: listing_defs key_defs)

section \<open>The loop over the pages\<close>

lemma append_jobs_acc:
  "append_jobs str_of jobs acc =
     (acc @ fst (append_jobs str_of jobs []), snd (append_jobs str_of jobs []))"
proof (induction jobs arbitrary: acc)
  case Nil
  show ?case by simp
next
  case (Cons job jobs)
  show ?case
  proof (cases "job_info str_of job")
    case (Inl e)
    then show ?thesis by simp
  next
    case (Inr info)
    have "append_jobs str_of (job # jobs) acc = append_jobs str_of jobs (acc @ [info])"
      using Inr by simp
    also have "\<dots> = ((acc @ [info]) @ fst (append_jobs str_of jobs []),
                      snd (append_jobs str_of jobs []))"
      by (rule Cons.IH)
    finally have l: "append_jobs str_of (job # jobs) acc =
        (acc @ info # fst (append_jobs str_of jobs []), snd (append_jobs str_of jobs []))"
      by simp
    have "append_jobs str_of (job # jobs) [] = append_jobs str_of jobs [info]"
      using Inr by simp
    also have "\<dots> = ([info] @ fst (append_jobs str_of jobs []),
                      snd (append_jobs str_of jobs []))"
      by (rule Cons.IH)
    finally show ?thesis using l by simp
  qed
qed

lemma append_jobs_append:
  "append_jobs str_of (xs @ rest) acc =
     (case append_jobs str_of xs acc of
        (jl, Some e) \<Rightarrow> (jl, Some e)
      | (jl, None) \<Rightarrow> append_jobs str_of rest jl)"
  by (induction xs arbitrary: acc) (auto split: sum.splits)

lemma try_page_acc:
  "try_page str_of response acc =
     (acc @ page_listings str_of response, page_end str_of response)"
proof -
  have a: "\<And>jobs. append_jobs str_of jobs acc =
      (acc @ fst (append_jobs str_of jobs []), snd (append_jobs str_of jobs []))"
    by (rule append_jobs_acc)
  show ?thesis
    unfolding try_page_def page_listings_def page_end_def
    by (auto split: sum.splits bool.splits prod.splits option.splits simp: a)
qed

lemma fetch_page_eq:
  "fetch_page str_of service keyword pages page st =
     (case page_end str_of (service keyword page) of
        Inl e \<Rightarrow>
          (st\<lparr>job_list := job_list st @ page_listings str_of (service keyword page),
              requested := requested st @ [page],
              reported := reported st @ [(page, e)]\<rparr>, Break)
      | Inr Break \<Rightarrow>
          (st\<lparr>job_list := job_list st @ page_listings str_of (service keyword page),
              requested := requested st @ [page]\<rparr>, Break)
      | Inr Next \<Rightarrow>
          (st\<lparr>job_list := job_list st @ page_listings str_of (service keyword page),
              requested := requested st @ [page],
              progress := progress st @ [(page, pages)]\<rparr>, Next))"
  by (simp add: fetch_page_def try_page_acc Let_def split: sum.splits flow.splits)

lemma fetch_loop_complete_pages:
  assumes "\<forall>p\<in>set ps. page_end str_of (service keyword p) = Inr Next"
  shows "fetch_loop str_of service keyword pages (ps @ qs) st =
     fetch_loop str_of service keyword pages qs
       (st\<lparr>job_list := job_list st @ concat (map (\<lambda>p. page_listings str_of (service keyword p)) ps),
           requested := requested st @ ps,
           progress := progress st @ map (\<lambda>p. (p, pages)) ps\<rparr>)"
  using assms
proof (induction ps arbitrary: st)
  case Nil
  show ?case by simp
next
  case (Cons p ps)
  then show ?case by (simp add: fetch_page_eq)
qed

lemma fetch_loop_stop:
  assumes "page_end str_of (service keyword n) \<noteq> Inr Next"
  shows "fetch_loop str_of service keyword pages (n # rest) st =
     fst (fetch_page str_of service keyword pages n st)"
  using assms by (auto simp: fetch_page_eq split: sum.splits flow.splits)

lemma fetch_run_first_stop:
  assumes "1 \<le> n" and "n \<le> pages"
    and "\<forall>p\<in>{1..<n}. page_end str_of (service keyword p) = Inr Next"
    and "page_end str_of (service keyword n) \<noteq> Inr Next"
  shows "fetch_run str_of service keyword pages =
     \<lparr>job_list = concat (map (\<lambda>p. page_listings str_of (service keyword p)) [1..n - 1])
                   @ page_listings str_of (service keyword n),
      requested = [1..n],
      reported = (case page_end str_of (service keyword n) of Inl e \<Rightarrow> [(n, e)] | Inr _ \<Rightarrow> []),
      progress = map (\<lambda>p. (p, pages)) [1..n - 1]\<rparr>"
proof -
  have split: "[1..pages] = [1..n - 1] @ n # [n + 1..pages]"
    using assms(1,2) by (rule upto_split3)
  have good: "\<forall>p\<in>set [1..n - 1]. page_end str_of (service keyword p) = Inr Next"
    using assms(3) by auto
  have upto: "[1..n] = [1..n - 1] @ [n]"
    using assms(1) by (simp add: upto_rec2)
  have "fetch_loop str_of service keyword pages ([1..n - 1] @ n # [n + 1..pages]) initial_state =
     fetch_loop str_of service keyword pages (n # [n + 1..pages])
       (initial_state\<lparr>job_list := job_list initial_state
              @ concat (map (\<lambda>p. page_listings str_of (service keyword p)) [1..n - 1]),
           requested := requested initial_state @ [1..n - 1],
           progress := progress initial_state @ map (\<lambda>p. (p, pages)) [1..n - 1]\<rparr>)"
    using good by (rule fetch_loop_complete_pages)
  moreover have "\<And>st. fetch_loop str_of service keyword pages (n # [n + 1..pages]) st =
      fst (fetch_page str_of service keyword pages n st)"
    using assms(4) by (rule fetch_loop_stop)
  ultimately show ?thesis
    using assms(4) unfolding fetch_run_def split
    by (simp add: upto fetch_page_eq initial_state_def split: sum.splits flow.splits)
qed

lemma fetch_run_all_pages:
  assumes "\<forall>p\<in>{1..pages}. page_end str_of (service keyword p) = Inr Next"
  shows "fetch_run str_of service keyword pages =
     \<lparr>job_list = concat (map (\<lambda>p. page_listings str_of (service keyword p)) [1..pages]),
      requested = [1..pages],
      reported = [],
      progress = map (\<lambda>p. (p, pages)) [1..pages]\<rparr>"
proof -
  have good: "\<forall>p\<in>set [1..pages]. page_end str_of (service keyword p) = Inr Next"
    using assms by auto
  have "fetch_loop str_of service keyword pages ([1..pages] @ []) initial_state =
     fetch_loop str_of service keyword pages []
       (initial_state\<lparr>job_list := job_list initial_state
              @ concat (map (\<lambda>p. page_listings str_of (service keyword p)) [1..pages]),
           requested := requested initial_state @ [1..pages],
           progress := progress initial_state @ map (\<lambda>p. (p, pages)) [1..pages]\<rparr>)"
    using good by (rule fetch_loop_complete_pages)
  then show ?thesis
    unfolding fetch_run_def
    by (simp add: initial_state_def)
qed

lemma append_jobs_built:
  "map (job_info str_of) xs = map Inr built \<Longrightarrow>
     append_jobs str_of xs acc = (acc @ built, None)"
proof (induction xs arbitrary: built acc)
  case Nil
  then show ?case by simp
next
  case (Cons x xs)
  then obtain b bs where "built = b # bs" "job_info str_of x = Inr b"
    "map (job_info str_of) xs = map Inr bs"
    by (cases built) auto
  then show ?case using Cons.IH [of bs "acc @ [b]"] by simp
qed

lemma objects_without_records_stop:
  "objects_without_records doc \<Longrightarrow> no_results doc = Inr True"
  unfolding objects_without_records_def no_results_def
  by (auto simp: py_in_def subscript_key_def ebind_def split: pyval.splits option.splits)

lemma page_end_request_error [simp]:
  "page_end str_of (Inl e) = Inl e" "page_listings str_of (Inl e) = []"
  by (simp_all add: page_end_def page_listings_def try_page_def)

text \<open>Pages described by the records they hold.\<close>

lemma subscript_key_in: "subscript_key v k = Inr x \<Longrightarrow> py_in k v = Inr True"
  by (auto simp: subscript_key_def py_in_def split: pyval.splits option.splits)

lemma py_len_iter: "py_iter l = Inr items \<Longrightarrow> py_len l = Inr (length items)"
  by (auto simp: py_iter_def py_len_def split: pyval.splits)

lemma records_of_Some:
  assumes "records_of doc = Some items"
  obtains d l where "subscript_key doc (ascii ''data'') = Inr d"
    and "subscript_key d (ascii ''list'') = Inr l" and "py_iter l = Inr items"
  using assms unfolding records_of_def by (auto split: sum.splits)

lemma no_results_records:
  assumes "records_of doc = Some items"
  shows "no_results doc = Inr (items = [])"
proof -
  from assms obtain d l where d: "subscript_key doc (ascii ''data'') = Inr d"
    and l: "subscript_key d (ascii ''list'') = Inr l" and i: "py_iter l = Inr items"
    by (rule records_of_Some)
  show ?thesis
    unfolding no_results_def
    by (simp add: subscript_key_in [OF d] subscript_key_in [OF l] d l py_len_iter [OF i]
        ebind_def)
qed

lemma try_page_records:
  assumes "records_of doc = Some items" and "items \<noteq> []"
  shows "try_page str_of (Inr doc) acc =
     (case append_jobs str_of items acc of
        (job_list', Some e) \<Rightarrow> (job_list', Inl e)
      | (job_list', None) \<Rightarrow> (job_list', Inr Next))"
proof -
  from assms(1) obtain d l where d: "subscript_key doc (ascii ''data'') = Inr d"
    and l: "subscript_key d (ascii ''list'') = Inr l" and i: "py_iter l = Inr items"
    by (rule records_of_Some)
  have "no_results doc = Inr False"
    using no_results_records [OF assms(1)] assms(2) by simp
  then show ?thesis
    by (simp add: try_page_def d l i ebind_def)
qed

lemma complete_page:
  assumes "records_of doc = Some rs" and "rs \<noteq> []"
    and "map (job_info str_of) rs = map Inr ls"
  shows "page_end str_of (Inr doc) = Inr Next" and "page_listings str_of (Inr doc) = ls"
  using try_page_records [OF assms(1,2), of str_of "[]"] append_jobs_built [OF assms(3), of "[]"]
  by (simp_all add: page_end_def page_listings_def)

lemma failing_page:
  assumes "records_of doc = Some (xs @ bad # ys)"
    and "map (job_info str_of) xs = map Inr built" and "job_info str_of bad = Inl e"
  shows "page_end str_of (Inr doc) = Inl e" and "page_listings str_of (Inr doc) = built"
proof -
  have "append_jobs str_of (xs @ bad # ys) [] = (built, Some e)"
    using append_jobs_built [OF assms(2), of "[]"] assms(3)
    by (simp add: append_jobs_append)
  then have "try_page str_of (Inr doc) [] = (built, Inl e)"
    using try_page_records [OF assms(1), of str_of "[]"] by simp
  then show "page_end str_of (Inr doc) = Inl e" and "page_listings str_of (Inr doc) = built"
    by (simp_all add: page_end_def page_listings_def)
qed

lemma check_raises_page:
  assumes "no_results doc = Inl e"
  shows "page_end str_of (Inr doc) = Inl e" and "page_listings str_of (Inr doc) = []"
  using assms by (simp_all add: page_end_def page_listings_def try_page_def)

lemma no_results_page:
  assumes "no_results doc = Inr True"
  shows "page_end str_of (Inr doc) = Inr Break" and "page_listings str_of (Inr doc) = []"
  using assms by (simp_all add: page_end_def page_listings_def try_page_def)

lemma absent_or_empty_check:
  assumes "data_list_absent_or_empty doc"
  shows "no_results doc = Inr True \<or> (\<exists>e. no_results doc = Inl e)"
  using assms
  unfolding data_list_absent_or_empty_def json_member_def no_results_def
  by (auto simp: py_in_def subscript_key_def ebind_def py_len_def
      split: pyval.splits option.splits if_splits)

lemma complete_pages:
  assumes "\<forall>p\<in>{1..<n}. \<exists>doc. service keyword p = Inr doc
      \<and> records_of doc = Some (records p) \<and> records p \<noteq> []
      \<and> map (job_info str_of) (records p) = map Inr (listings p)"
  shows "\<forall>p\<in>{1..<n}. page_end str_of (service keyword p) = Inr Next"
    and "concat (map (\<lambda>p. page_listings str_of (service keyword p)) [1..n - 1])
           = concat (map listings [1..n - 1])"
proof -
  have each: "page_end str_of (service keyword p) = Inr Next
      \<and> page_listings str_of (service keyword p) = listings p" if "p \<in> {1..<n}" for p
  proof -
    from assms that obtain doc where "service keyword p = Inr doc"
      and "records_of doc = Some (records p)" and "records p \<noteq> []"
      and "map (job_info str_of) (records p) = map Inr (listings p)"
      by blast
    then show ?thesis
      using complete_page [of doc "records p" str_of "listings p"] by simp
  qed
  then show "\<forall>p\<in>{1..<n}. page_end str_of (service keyword p) = Inr Next"
    by blast
  have "map (\<lambda>p. page_listings str_of (service keyword p)) [1..n - 1] = map listings [1..n - 1]"
    using each by (intro map_cong) auto
  then show "concat (map (\<lambda>p. page_listings str_of (service keyword p)) [1..n - 1])
           = concat (map listings [1..n - 1])"
    by (rule arg_cong)
qed

lemma fetch_run_stop_at:
  assumes "1 \<le> n" and "n \<le> pages"
    and "\<forall>p\<in>{1..<n}. \<exists>doc. service keyword p = Inr doc
      \<and> records_of doc = Some (records p) \<and> records p \<noteq> []
      \<and> map (job_info str_of) (records p) = map Inr (listings p)"
    and "page_end str_of (service keyword n) \<noteq> Inr Next"
  shows "fetch_run str_of service keyword pages =
     \<lparr>job_list = concat (map listings [1..n - 1]) @ page_listings str_of (service keyword n),
      requested = [1..n],
      reported = (case page_end str_of (service keyword n) of Inl e \<Rightarrow> [(n, e)] | Inr _ \<Rightarrow> []),
      progress = map (\<lambda>p. (p, pages)) [1..n - 1]\<rparr>"
proof -
  have good: "\<forall>p\<in>{1..<n}. page_end str_of (service keyword p) = Inr Next"
    using assms(3) by (rule complete_pages)
  have same: "concat (map (\<lambda>p. page_listings str_of (service keyword p)) [1..n - 1])
           = concat (map listings [1..n - 1])"
    using assms(3) by (rule complete_pages)
  have "fetch_run str_of service keyword pages =
     \<lparr>job_list = concat (map (\<lambda>p. page_listings str_of (service keyword p)) [1..n - 1])
                   @ page_listings str_of (service keyword n),
      requested = [1..n],
      reported = (case page_end str_of (service keyword n) of Inl e \<Rightarrow> [(n, e)] | Inr _ \<Rightarrow> []),
      progress = map (\<lambda>p. (p, pages)) [1..n - 1]\<rparr>"
    using assms(1,2) good assms(4) by (rule fetch_run_first_stop)
  then show ?thesis
    by (simp only: same)
qed

lemma append_jobs_error:
  "append_jobs str_of jobs acc = (jl, Some e) \<Longrightarrow>
     \<exists>xs bad ys built. jobs = xs @ bad # ys \<and> map (job_info str_of) xs = map Inr built
        \<and> job_info str_of bad = Inl e \<and> jl = acc @ built"
proof (induction jobs arbitrary: acc)
  case Nil
  then show ?case by simp
next
  case (Cons job jobs)
  show ?case
  proof (cases "job_info str_of job")
    case (Inl e')
    with Cons.prems have "e' = e" "jl = acc" by simp_all
    with Inl have "job # jobs = [] @ job # jobs \<and> map (job_info str_of) [] = map Inr []
        \<and> job_info str_of job = Inl e \<and> jl = acc @ []"
      by simp
    then show ?thesis by blast
  next
    case (Inr info)
    with Cons.prems have "append_jobs str_of jobs (acc @ [info]) = (jl, Some e)"
      by simp
    from Cons.IH [OF this] obtain xs bad ys built where
      "jobs = xs @ bad # ys" "map (job_info str_of) xs = map Inr built"
      "job_info str_of bad = Inl e" "jl = (acc @ [info]) @ built"
      by blast
    with Inr have "job # jobs = (job # xs) @ bad # ys
        \<and> map (job_info str_of) (job # xs) = map Inr (info # built)
        \<and> job_info str_of bad = Inl e \<and> jl = acc @ (info # built)"
      by simp
    then show ?thesis by blast
  qed
qed

lemma no_results_False_records:
  assumes "no_results doc = Inr False"
  obtains items where "records_of doc = Some items" and "items \<noteq> []"
proof -
  from assms obtain d where d: "subscript_key doc (ascii ''data'') = Inr d"
    unfolding no_results_def
    by (cases "py_in (ascii ''data'') doc"; cases "subscript_key doc (ascii ''data'')")
      (auto simp: ebind_def split: if_splits)
  from assms d obtain l where l: "subscript_key d (ascii ''list'') = Inr l"
    unfolding no_results_def
    by (cases "py_in (ascii ''data'') doc"; cases "py_in (ascii ''list'') d";
        cases "subscript_key d (ascii ''list'')")
      (auto simp: ebind_def split: if_splits)
  from assms d l obtain k where k: "py_len l = Inr k" "k \<noteq> 0"
    unfolding no_results_def
    by (cases "py_len l")
      (auto simp: ebind_def subscript_key_in [OF d] subscript_key_in [OF l])
  then obtain items where i: "py_iter l = Inr items"
    by (cases l) (auto simp: py_len_def py_iter_def)
  then have "length items = k"
    using py_len_iter [OF i] k(1) by simp
  with k(2) have "items \<noteq> []" by auto
  moreover have "records_of doc = Some items"
    by (simp add: records_of_def d l i)
  ultimately show ?thesis by (rule that [rotated])
qed

text \<open>The three ways the body of a page raises; there is no other.\<close>

lemma page_raises_cases:
  assumes "page_end str_of response = Inl e"
  shows "response = Inl e
     \<or> (\<exists>doc. response = Inr doc \<and> no_results doc = Inl e)
     \<or> (\<exists>doc xs bad ys built. response = Inr doc \<and> records_of doc = Some (xs @ bad # ys)
           \<and> map (job_info str_of) xs = map Inr built \<and> job_info str_of bad = Inl e)"
proof (cases response)
  case (Inl e')
  with assms show ?thesis by simp
next
  case (Inr doc)
  show ?thesis
  proof (cases "no_results doc")
    case (Inl e')
    with assms Inr have "e' = e"
      using check_raises_page(1) [of doc e' str_of] by simp
    with Inl Inr show ?thesis by simp
  next
    case stop: (Inr b)
    show ?thesis
    proof (cases b)
      case True
      with stop assms Inr show ?thesis
        using no_results_page(1) [of doc str_of] by simp
    next
      case False
      with stop have "no_results doc = Inr False" by simp
      then obtain items where items: "records_of doc = Some items" "items \<noteq> []"
        by (rule no_results_False_records)
      obtain jl r where a: "append_jobs str_of items [] = (jl, r)"
        by (cases "append_jobs str_of items []")
      with assms Inr items have "r = Some e"
        using try_page_records [OF items, of str_of "[]"]
        by (cases r) (simp_all add: page_end_def)
      with a obtain xs bad ys built where "items = xs @ bad # ys"
        "map (job_info str_of) xs = map Inr built" "job_info str_of bad = Inl e"
        using append_jobs_error [of str_of items "[]" jl e] by blast
      with items(1) Inr show ?thesis by blast
    qed
  qed
qed

lemma append_jobs_complete:
  "append_jobs str_of jobs acc = (jl, None) \<Longrightarrow>
     \<exists>built. map (job_info str_of) jobs = map Inr built \<and> jl = acc @ built"
proof (induction jobs arbitrary: acc)
  case Nil
  then show ?case by simp
next
  case (Cons job jobs)
  show ?case
  proof (cases "job_info str_of job")
    case (Inl e)
    with Cons.prems show ?thesis by simp
  next
    case (Inr info)
    with Cons.prems have "append_jobs str_of jobs (acc @ [info]) = (jl, None)"
      by simp
    from Cons.IH [OF this] obtain built where
      "map (job_info str_of) jobs = map Inr built" "jl = (acc @ [info]) @ built"
      by blast
    with Inr have "map (job_info str_of) (job # jobs) = map Inr (info # built)
        \<and> jl = acc @ (info # built)"
      by simp
    then show ?thesis by blast
  qed
qed

text \<open>
  The body of a page runs to its end exactly when the page holds records, at least
  one, that all give a listing.
\<close>

lemma complete_page_iff:
  "page_end str_of response = Inr Next \<longleftrightarrow>
     (\<exists>doc rs ls. response = Inr doc \<and> records_of doc = Some rs \<and> rs \<noteq> []
        \<and> map (job_info str_of) rs = map Inr ls)"
proof
  assume "\<exists>doc rs ls. response = Inr doc \<and> records_of doc = Some rs \<and> rs \<noteq> []
        \<and> map (job_info str_of) rs = map Inr ls"
  then obtain doc rs ls where "response = Inr doc" "records_of doc = Some rs" "rs \<noteq> []"
    "map (job_info str_of) rs = map Inr ls"
    by blast
  then show "page_end str_of response = Inr Next"
    using complete_page(1) [of doc rs str_of ls] by simp
next
  assume ends: "page_end str_of response = Inr Next"
  then obtain doc where doc: "response = Inr doc"
    by (cases response) simp_all
  have "no_results doc = Inr False"
  proof (cases "no_results doc")
    case (Inl e)
    with ends doc show ?thesis
      using check_raises_page(1) [of doc e str_of] by simp
  next
    case (Inr b)
    with ends doc show ?thesis
      using no_results_page(1) [of doc str_of] by (cases b) simp_all
  qed
  then obtain rs where rs: "records_of doc = Some rs" "rs \<noteq> []"
    by (rule no_results_False_records)
  obtain jl r where a: "append_jobs str_of rs [] = (jl, r)"
    by (cases "append_jobs str_of rs []")
  with ends doc have "r = None"
    using try_page_records [OF rs, of str_of "[]"]
    by (cases r) (simp_all add: page_end_def)
  with a obtain ls where "map (job_info str_of) rs = map Inr ls"
    using append_jobs_complete [of str_of rs "[]" jl] by blast
  with doc rs show "\<exists>doc rs ls. response = Inr doc \<and> records_of doc = Some rs \<and> rs \<noteq> []
        \<and> map (job_info str_of) rs = map Inr ls"
    by blast
qed

lemma records_of_page_of: "records_of (page_of jobs) = Some jobs"
  by (simp add: records_of_def page_of_def subscript_key_def py_iter_def)

text \<open>
  Claim C2, as the code has it. Pages \<open>1\<close> to \<open>n - 1\<close>, with \<open>1 < n \<le> pages\<close>, each
  hold records, \<open>records p\<close>, that all give a listing, \<open>listings p\<close>, which is what
  it takes for their bodies to run to the end (\<open>complete_page_iff\<close>), and page \<open>n\<close>
  raises. In each of the three ways a page raises (\<open>page_raises_cases\<close>: there is no
  other) the pages requested are \<open>1\<close> to \<open>n\<close>, each once, and the exception is shown
  for page \<open>n\<close>, not raised to the caller. When the request or the decoding raises,
  and when the test for a page without results raises, the run returns the listings of
  pages \<open>1\<close> to \<open>n - 1\<close> and nothing else. When building the listing of a record of
  page \<open>n\<close> raises, the run returns the listings of pages \<open>1\<close> to \<open>n - 1\<close> followed
  by the listings of the records of page \<open>n\<close> before that one.
\<close>

theorem fetch_error_abort:
  assumes "1 < n" and "n \<le> pages"
    and "\<forall>p\<in>{1..<n}. \<exists>doc. service keyword p = Inr doc
      \<and> records_of doc = Some (records p) \<and> records p \<noteq> []
      \<and> map (job_info str_of) (records p) = map Inr (listings p)"
  shows "(\<forall>e. service keyword n = Inl e \<longrightarrow>
            fetch_104_jobs str_of service keyword pages = concat (map listings [1..n - 1])
          \<and> requested (fetch_run str_of service keyword pages) = [1..n]
          \<and> reported (fetch_run str_of service keyword pages) = [(n, e)])
       \<and> (\<forall>doc e. service keyword n = Inr doc \<and> no_results doc = Inl e \<longrightarrow>
            fetch_104_jobs str_of service keyword pages = concat (map listings [1..n - 1])
          \<and> requested (fetch_run str_of service keyword pages) = [1..n]
          \<and> reported (fetch_run str_of service keyword pages) = [(n, e)])
       \<and> (\<forall>doc xs bad ys built e.
            service keyword n = Inr doc \<and> records_of doc = Some (xs @ bad # ys)
            \<and> map (job_info str_of) xs = map Inr built \<and> job_info str_of bad = Inl e \<longrightarrow>
            fetch_104_jobs str_of service keyword pages
              = concat (map listings [1..n - 1]) @ built
          \<and> requested (fetch_run str_of service keyword pages) = [1..n]
          \<and> reported (fetch_run str_of service keyword pages) = [(n, e)])"
proof -
  have n: "1 \<le> n" using assms(1) by simp
  have run: "fetch_run str_of service keyword pages =
     \<lparr>job_list = concat (map listings [1..n - 1]) @ page_listings str_of (service keyword n),
      requested = [1..n],
      reported = (case page_end str_of (service keyword n) of Inl e \<Rightarrow> [(n, e)] | Inr _ \<Rightarrow> []),
      progress = map (\<lambda>p. (p, pages)) [1..n - 1]\<rparr>"
    if "page_end str_of (service keyword n) \<noteq> Inr Next"
    using n assms(2,3) that by (rule fetch_run_stop_at)
  have request: "fetch_104_jobs str_of service keyword pages = concat (map listings [1..n - 1])
          \<and> requested (fetch_run str_of service keyword pages) = [1..n]
          \<and> reported (fetch_run str_of service keyword pages) = [(n, e)]"
    if "service keyword n = Inl e" for e
    using that run by (simp add: fetch_104_jobs_def)
  have check: "fetch_104_jobs str_of service keyword pages = concat (map listings [1..n - 1])
          \<and> requested (fetch_run str_of service keyword pages) = [1..n]
          \<and> reported (fetch_run str_of service keyword pages) = [(n, e)]"
    if "service keyword n = Inr doc" "no_results doc = Inl e" for doc e
    using that run check_raises_page [OF that(2), of str_of] by (simp add: fetch_104_jobs_def)
  have partial: "fetch_104_jobs str_of service keyword pages
              = concat (map listings [1..n - 1]) @ built
          \<and> requested (fetch_run str_of service keyword pages) = [1..n]
          \<and> reported (fetch_run str_of service keyword pages) = [(n, e)]"
    if "service keyword n = Inr doc" "records_of doc = Some (xs @ bad # ys)"
      "map (job_info str_of) xs = map Inr built" "job_info str_of bad = Inl e"
    for doc xs bad ys built e
    using that(1) run failing_page [OF that(2,3,4)] by (simp add: fetch_104_jobs_def)
  from request check partial show ?thesis by blast
qed

theorem fetch_error_abort_witness:
  "\<exists>a b. job_info (\<lambda>v. []) (PDict [(ascii ''jobName'', PStr (ascii ''A''))]) = Inr a
     \<and> job_info (\<lambda>v. []) (PDict [(ascii ''jobName'', PStr (ascii ''B''))]) = Inr b
     \<and> map_of a key_title = Some (PStr (ascii ''A''))
     \<and> map_of b key_title = Some (PStr (ascii ''B''))
     \<and> sample_request_error (ascii ''python'') 2 = Inl RequestException
     \<and> fetch_104_jobs (\<lambda>v. []) sample_request_error (ascii ''python'') 3 = [a]
     \<and> requested (fetch_run (\<lambda>v. []) sample_request_error (ascii ''python'') 3) = [1, 2]
     \<and> reported (fetch_run (\<lambda>v. []) sample_request_error (ascii ''python'') 3)
           = [(2, RequestException)]
     \<and> no_results (PDict [(ascii ''data'', PNone)]) = Inl TypeError
     \<and> fetch_104_jobs (\<lambda>v. []) sample_null_data (ascii ''python'') 3 = [a]
     \<and> requested (fetch_run (\<lambda>v. []) sample_null_data (ascii ''python'') 3) = [1, 2]
     \<and> reported (fetch_run (\<lambda>v. []) sample_null_data (ascii ''python'') 3) = [(2, TypeError)]
     \<and> job_info (\<lambda>v. []) (PDict [(ascii ''jobName'', PStr (ascii ''C'')),
           (ascii ''specialty'', PList [PDict [(ascii ''code'', PInt 7)]])]) = Inl KeyError
     \<and> fetch_104_jobs (\<lambda>v. []) sample_record_error (ascii ''python'') 3 = [a, b]
     \<and> requested (fetch_run (\<lambda>v. []) sample_record_error (ascii ''python'') 3) = [1, 2]
     \<and> reported (fetch_run (\<lambda>v. []) sample_record_error (ascii ''python'') 3) = [(2, KeyError)]"
proof -
  let ?A = "PDict [(ascii ''jobName'', PStr (ascii ''A''))]"
  let ?B = "PDict [(ascii ''jobName'', PStr (ascii ''B''))]"
  let ?C = "PDict [(ascii ''jobName'', PStr (ascii ''C'')),
           (ascii ''specialty'', PList [PDict [(ascii ''code'', PInt 7)]])]"
  let ?D = "PDict [(ascii ''jobName'', PStr (ascii ''D''))]"
  let ?kw = "ascii ''python''"
  obtain a where a: "job_info (\<lambda>v. []) ?A = Inr a"
    by (simp add: listing_defs)
  obtain b where b: "job_info (\<lambda>v. []) ?B = Inr b"
    by (simp add: listing_defs)
  have ta: "map_of a key_title = Some (PStr (ascii ''A''))"
    using a by (auto simp: listing_defs key_defs)
  have tb: "map_of b key_title = Some (PStr (ascii ''B''))"
    using b by (auto simp: listing_defs key_defs)
  have c: "job_info (\<lambda>v. []) ?C = Inl KeyError"
    by (simp add: listing_defs)
  have first: "\<forall>p\<in>{1..<2}. \<exists>doc. service ?kw p = Inr doc
      \<and> records_of doc = Some ((\<lambda>p. [?A]) p) \<and> (\<lambda>p. [?A]) p \<noteq> []
      \<and> map (job_info (\<lambda>v. [])) ((\<lambda>p. [?A]) p) = map Inr ((\<lambda>p. [a]) p)"
    if "service ?kw 1 = Inr (page_of [?A])"
    for service :: "pystr \<Rightarrow> int \<Rightarrow> py_error + pyval"
    using that a by (simp add: pages_before_2 records_of_page_of)
  have r1: "sample_request_error ?kw 1 = Inr (page_of [?A])"
    and r2: "sample_request_error ?kw 2 = Inl RequestException"
    by (simp_all add: sample_request_error_def)
  have n1: "sample_null_data ?kw 1 = Inr (page_of [?A])"
    and n2: "sample_null_data ?kw 2 = Inr (PDict [(ascii ''data'', PNone)])"
    by (simp_all add: sample_null_data_def)
  have nr: "no_results (PDict [(ascii ''data'', PNone)]) = Inl TypeError"
    by (simp add: no_results_def py_in_def subscript_key_def ebind_def ascii_def)
  have e1: "sample_record_error ?kw 1 = Inr (page_of [?A])"
    and e2: "sample_record_error ?kw 2 = Inr (page_of ([?B] @ ?C # []))"
    by (simp_all add: sample_record_error_def)
  have eb: "map (job_info (\<lambda>v. [])) [?B] = map Inr [b]"
    using b by simp
  have er: "records_of (page_of ([?B] @ ?C # [])) = Some ([?B] @ ?C # [])"
    by (rule records_of_page_of)
  have lt: "(1::int) < 2" "(2::int) \<le> 3"
    by simp_all
  note w1 = fetch_error_abort [where n = 2 and pages = 3 and service = sample_request_error
      and keyword = ?kw and records = "\<lambda>p. [?A]" and str_of = "\<lambda>v. []"
      and listings = "\<lambda>p. [a]", OF lt first [of sample_request_error, OF r1]]
  note w2 = fetch_error_abort [where n = 2 and pages = 3 and service = sample_null_data
      and keyword = ?kw and records = "\<lambda>p. [?A]" and str_of = "\<lambda>v. []"
      and listings = "\<lambda>p. [a]", OF lt first [of sample_null_data, OF n1]]
  note w3 = fetch_error_abort [where n = 2 and pages = 3 and service = sample_record_error
      and keyword = ?kw and records = "\<lambda>p. [?A]" and str_of = "\<lambda>v. []"
      and listings = "\<lambda>p. [a]", OF lt first [of sample_record_error, OF e1]]
  have x1: "fetch_104_jobs (\<lambda>v. []) sample_request_error ?kw 3 = [a]
     \<and> requested (fetch_run (\<lambda>v. []) sample_request_error ?kw 3) = [1, 2]
     \<and> reported (fetch_run (\<lambda>v. []) sample_request_error ?kw 3) = [(2, RequestException)]"
    using w1 r2 by (simp add: pages_1_2)
  have x2: "fetch_104_jobs (\<lambda>v. []) sample_null_data ?kw 3 = [a]
     \<and> requested (fetch_run (\<lambda>v. []) sample_null_data ?kw 3) = [1, 2]
     \<and> reported (fetch_run (\<lambda>v. []) sample_null_data ?kw 3) = [(2, TypeError)]"
    using w2 n2 nr by (simp add: pages_1_2)
  have "fetch_104_jobs (\<lambda>v. []) sample_record_error ?kw 3
            = concat (map (\<lambda>p. [a]) [1..2 - 1]) @ [b]
     \<and> requested (fetch_run (\<lambda>v. []) sample_record_error ?kw 3) = [1..2]
     \<and> reported (fetch_run (\<lambda>v. []) sample_record_error ?kw 3) = [(2, KeyError)]"
    using w3 e2 er eb c by blast
  then have x3: "fetch_104_jobs (\<lambda>v. []) sample_record_error ?kw 3 = [a, b]
     \<and> requested (fetch_run (\<lambda>v. []) sample_record_error ?kw 3) = [1, 2]
     \<and> reported (fetch_run (\<lambda>v. []) sample_record_error ?kw 3) = [(2, KeyError)]"
    by (simp add: pages_1_2)
  from a b ta tb r2 x1 nr x2 c x3 show ?thesis
    by blast
qed

theorem fetch_error_partial_page_counterexample:
  "page_end (\<lambda>v. []) (sample_record_error (ascii ''python'') 1) = Inr Next
   \<and> page_end (\<lambda>v. []) (sample_record_error (ascii ''python'') 2) = Inl KeyError
   \<and> map (\<lambda>info. map_of info key_title)
        (fetch_104_jobs (\<lambda>v. []) sample_record_error (ascii ''python'') 3)
       = [Some (PStr (ascii ''A'')), Some (PStr (ascii ''B''))]
   \<and> map (\<lambda>info. map_of info key_title)
        (page_listings (\<lambda>v. []) (sample_record_error (ascii ''python'') 1))
       = [Some (PStr (ascii ''A''))]
   \<and> fetch_104_jobs (\<lambda>v. []) sample_record_error (ascii ''python'') 3
       \<noteq> page_listings (\<lambda>v. []) (sample_record_error (ascii ''python'') 1)"
proof -
  have 1: "page_end (\<lambda>v. []) (sample_record_error (ascii ''python'') 1) = Inr Next"
    by (simp add: sample_record_error_def page_defs listing_defs)
  have 2: "page_end (\<lambda>v. []) (sample_record_error (ascii ''python'') 2) = Inl KeyError"
    by (simp add: sample_record_error_def page_defs listing_defs)
  have l1: "map (\<lambda>info. map_of info key_title)
        (page_listings (\<lambda>v. []) (sample_record_error (ascii ''python'') 1))
       = [Some (PStr (ascii ''A''))]"
    by (simp add: sample_record_error_def page_defs listing_defs key_defs)
  have l2: "map (\<lambda>info. map_of info key_title)
        (page_listings (\<lambda>v. []) (sample_record_error (ascii ''python'') 2))
       = [Some (PStr (ascii ''B''))]"
    by (simp add: sample_record_error_def page_defs listing_defs key_defs)
  have good: "\<forall>p\<in>{1..<2}. page_end (\<lambda>v. []) (sample_record_error (ascii ''python'') p) = Inr Next"
    using 1 by (simp add: pages_before_2)
  have stop: "page_end (\<lambda>v. []) (sample_record_error (ascii ''python'') 2) \<noteq> Inr Next"
    using 2 by simp
  have "fetch_run (\<lambda>v. []) sample_record_error (ascii ''python'') 3 =
     \<lparr>job_list = concat (map (\<lambda>p. page_listings (\<lambda>v. []) (sample_record_error (ascii ''python'') p)) [1..2 - 1])
                   @ page_listings (\<lambda>v. []) (sample_record_error (ascii ''python'') 2),
      requested = [1..2],
      reported = (case page_end (\<lambda>v. []) (sample_record_error (ascii ''python'') 2) of Inl e \<Rightarrow> [(2, e)] | Inr _ \<Rightarrow> []),
      progress = map (\<lambda>p. (p, 3)) [1..2 - 1]\<rparr>"
    using good stop by (intro fetch_run_first_stop) simp_all
  then have run: "fetch_104_jobs (\<lambda>v. []) sample_record_error (ascii ''python'') 3
      = page_listings (\<lambda>v. []) (sample_record_error (ascii ''python'') 1)
        @ page_listings (\<lambda>v. []) (sample_record_error (ascii ''python'') 2)"
    by (simp add: fetch_104_jobs_def)
  have "map (\<lambda>info. map_of info key_title)
        (fetch_104_jobs (\<lambda>v. []) sample_record_error (ascii ''python'') 3)
       = [Some (PStr (ascii ''A'')), Some (PStr (ascii ''B''))]"
    unfolding run using l1 l2 by simp
  moreover from this l1 have "fetch_104_jobs (\<lambda>v. []) sample_record_error (ascii ''python'') 3
       \<noteq> page_listings (\<lambda>v. []) (sample_record_error (ascii ''python'') 1)"
    by auto
  ultimately show ?thesis using 1 2 l1 by simp
qed

text \<open>
  Claim C3, as the code has it. Pages \<open>1\<close> to \<open>n - 1\<close> each hold records that all
  give a listing, and the document of page \<open>n\<close> has no \<open>data.list\<close> or an empty one.
  Then the run returns exactly the listings of pages \<open>1\<close> to \<open>n - 1\<close> and requests no
  page after \<open>n\<close>. An error is shown for page \<open>n\<close> exactly when the test of the
  source raises on the document, as it does on a null \<open>data\<close>; none is shown when the
  document is an object without \<open>data\<close>, or \<open>data\<close> is an object without \<open>list\<close> or
  with a \<open>list\<close> of length 0.
\<close>

theorem fetch_empty_page_stop:
  assumes "1 \<le> n" and "n \<le> pages"
    and "\<forall>p\<in>{1..<n}. \<exists>doc. service keyword p = Inr doc
      \<and> records_of doc = Some (records p) \<and> records p \<noteq> []
      \<and> map (job_info str_of) (records p) = map Inr (listings p)"
    and "service keyword n = Inr doc"
    and "data_list_absent_or_empty doc"
  shows "fetch_104_jobs str_of service keyword pages = concat (map listings [1..n - 1])
       \<and> requested (fetch_run str_of service keyword pages) = [1..n]
       \<and> reported (fetch_run str_of service keyword pages)
            = (case no_results doc of Inl e \<Rightarrow> [(n, e)] | Inr _ \<Rightarrow> [])
       \<and> (objects_without_records doc \<longrightarrow>
            reported (fetch_run str_of service keyword pages) = [])"
proof -
  have narrow: "no_results doc = Inr True" if "objects_without_records doc"
    using that by (rule objects_without_records_stop)
  from absent_or_empty_check [OF assms(5)]
  have page: "page_listings str_of (service keyword n) = []
      \<and> page_end str_of (service keyword n) \<noteq> Inr Next
      \<and> (case page_end str_of (service keyword n) of Inl e \<Rightarrow> [(n, e)] | Inr _ \<Rightarrow> [])
          = (case no_results doc of Inl e \<Rightarrow> [(n, e)] | Inr _ \<Rightarrow> [])"
  proof
    assume "no_results doc = Inr True"
    then show ?thesis
      using no_results_page [of doc str_of] assms(4) by simp
  next
    assume "\<exists>e. no_results doc = Inl e"
    then obtain e where "no_results doc = Inl e" ..
    then show ?thesis
      using check_raises_page [of doc e str_of] assms(4) by simp
  qed
  then have "page_end str_of (service keyword n) \<noteq> Inr Next" by simp
  with assms(1,2,3) have "fetch_run str_of service keyword pages =
     \<lparr>job_list = concat (map listings [1..n - 1]) @ page_listings str_of (service keyword n),
      requested = [1..n],
      reported = (case page_end str_of (service keyword n) of Inl e \<Rightarrow> [(n, e)] | Inr _ \<Rightarrow> []),
      progress = map (\<lambda>p. (p, pages)) [1..n - 1]\<rparr>"
    by (rule fetch_run_stop_at)
  with page narrow show ?thesis
    by (auto simp: fetch_104_jobs_def)
qed

theorem fetch_empty_page_stop_witness:
  "\<exists>a. job_info (\<lambda>v. []) (PDict [(ascii ''jobName'', PStr (ascii ''A''))]) = Inr a
     \<and> map_of a key_title = Some (PStr (ascii ''A''))
     \<and> sample_empty_page (ascii ''python'') 2 = Inr (page_of [])
     \<and> data_list_absent_or_empty (page_of [])
     \<and> objects_without_records (page_of [])
     \<and> fetch_104_jobs (\<lambda>v. []) sample_empty_page (ascii ''python'') 3 = [a]
     \<and> requested (fetch_run (\<lambda>v. []) sample_empty_page (ascii ''python'') 3) = [1, 2]
     \<and> reported (fetch_run (\<lambda>v. []) sample_empty_page (ascii ''python'') 3) = []"
proof -
  let ?A = "PDict [(ascii ''jobName'', PStr (ascii ''A''))]"
  let ?kw = "ascii ''python''"
  obtain a where a: "job_info (\<lambda>v. []) ?A = Inr a"
    by (simp add: listing_defs)
  have ta: "map_of a key_title = Some (PStr (ascii ''A''))"
    using a by (auto simp: listing_defs key_defs)
  have p1: "sample_empty_page ?kw 1 = Inr (page_of [?A])"
    and p2: "sample_empty_page ?kw 2 = Inr (page_of [])"
    by (simp_all add: sample_empty_page_def)
  have first: "\<forall>p\<in>{1..<2}. \<exists>doc. sample_empty_page ?kw p = Inr doc
      \<and> records_of doc = Some ((\<lambda>p. [?A]) p) \<and> (\<lambda>p. [?A]) p \<noteq> []
      \<and> map (job_info (\<lambda>v. [])) ((\<lambda>p. [?A]) p) = map Inr ((\<lambda>p. [a]) p)"
    using p1 a by (simp add: pages_before_2 records_of_page_of)
  have broad: "data_list_absent_or_empty (page_of [])"
    by (simp add: data_list_absent_or_empty_def json_member_def page_of_def py_len_def ascii_def)
  have narrow: "objects_without_records (page_of [])"
    by (simp add: objects_without_records_def page_of_def py_len_def ascii_def)
  have le: "(1::int) \<le> 2" "(2::int) \<le> 3"
    by simp_all
  note w = fetch_empty_page_stop [where n = 2 and pages = 3 and service = sample_empty_page
      and keyword = ?kw and records = "\<lambda>p. [?A]" and str_of = "\<lambda>v. []"
      and listings = "\<lambda>p. [a]" and doc = "page_of []", OF le first p2 broad]
  have "fetch_104_jobs (\<lambda>v. []) sample_empty_page ?kw 3 = [a]
     \<and> requested (fetch_run (\<lambda>v. []) sample_empty_page ?kw 3) = [1, 2]
     \<and> reported (fetch_run (\<lambda>v. []) sample_empty_page ?kw 3) = []"
    using w narrow objects_without_records_stop [OF narrow] by (simp add: pages_1_2)
  with a ta p2 broad narrow show ?thesis
    by blast
qed

theorem fetch_null_data_counterexample:
  "sample_null_data (ascii ''python'') 2 = Inr (PDict [(ascii ''data'', PNone)])
   \<and> data_list_absent_or_empty (PDict [(ascii ''data'', PNone)])
   \<and> reported (fetch_run (\<lambda>v. []) sample_null_data (ascii ''python'') 3) = [(2, TypeError)]
   \<and> reported (fetch_run (\<lambda>v. []) sample_null_data (ascii ''python'') 3) \<noteq> []"
proof -
  let ?kw = "ascii ''python''"
  have 1: "page_end (\<lambda>v. []) (sample_null_data ?kw 1) = Inr Next"
    by (simp add: sample_null_data_def page_defs listing_defs)
  have 2: "page_end (\<lambda>v. []) (sample_null_data ?kw 2) = Inl TypeError"
    by (simp add: sample_null_data_def page_defs listing_defs)
  have d: "sample_null_data ?kw 2 = Inr (PDict [(ascii ''data'', PNone)])"
    by (simp add: sample_null_data_def)
  have broad: "data_list_absent_or_empty (PDict [(ascii ''data'', PNone)])"
    by (simp add: data_list_absent_or_empty_def json_member_def ascii_def)
  have good: "\<forall>p\<in>{1..<2}. page_end (\<lambda>v. []) (sample_null_data ?kw p) = Inr Next"
    using 1 by (simp add: pages_before_2)
  have stop: "page_end (\<lambda>v. []) (sample_null_data ?kw 2) \<noteq> Inr Next"
    using 2 by simp
  have "fetch_run (\<lambda>v. []) sample_null_data ?kw 3 =
     \<lparr>job_list = concat (map (\<lambda>p. page_listings (\<lambda>v. []) (sample_null_data ?kw p)) [1..2 - 1])
                   @ page_listings (\<lambda>v. []) (sample_null_data ?kw 2),
      requested = [1..2],
      reported = (case page_end (\<lambda>v. []) (sample_null_data ?kw 2) of
                    Inl e \<Rightarrow> [(2, e)] | Inr _ \<Rightarrow> []),
      progress = map (\<lambda>p. (p, 3)) [1..2 - 1]\<rparr>"
    using good stop by (intro fetch_run_first_stop) simp_all
  then have "reported (fetch_run (\<lambda>v. []) sample_null_data ?kw 3) = [(2, TypeError)]"
    using 2 by simp
  with d broad show ?thesis by simp
qed

text \<open>
  Claim C10. Aborting on an error is not atomic for a page: when building the listing
  of a record of page \<open>n\<close> raises, the listings built from the records before it on
  that page stay in the collection returned, after those of the pages before.
\<close>

theorem fetch_keeps_built_listings:
  assumes "1 \<le> n" and "n \<le> pages"
    and "\<forall>p\<in>{1..<n}. page_end str_of (service keyword p) = Inr Next"
    and "service keyword n = Inr doc"
    and "subscript_key doc (ascii ''data'') = Inr d"
    and "subscript_key d (ascii ''list'') = Inr (PList (xs @ bad # ys))"
    and "map (job_info str_of) xs = map Inr built"
    and "job_info str_of bad = Inl e"
  shows "fetch_104_jobs str_of service keyword pages =
           concat (map (\<lambda>p. page_listings str_of (service keyword p)) [1..n - 1]) @ built
       \<and> length built = length xs
       \<and> reported (fetch_run str_of service keyword pages) = [(n, e)]"
proof -
  have len: "length built = length xs"
    using assms(7) by (metis length_map)
  have "append_jobs str_of (xs @ bad # ys) [] = (built, Some e)"
    using append_jobs_built [OF assms(7), of "[]"] assms(8)
    by (simp add: append_jobs_append)
  moreover have "no_results doc = Inr False"
    using assms(5,6)
    by (auto simp: no_results_def py_in_def subscript_key_def ebind_def py_len_def
        split: pyval.splits option.splits)
  ultimately have page: "try_page str_of (service keyword n) [] = (built, Inl e)"
    using assms(4,5,6) by (simp add: try_page_def ebind_def py_iter_def)
  then have stop: "page_end str_of (service keyword n) = Inl e"
    and part: "page_listings str_of (service keyword n) = built"
    by (simp_all add: page_end_def page_listings_def)
  then have "page_end str_of (service keyword n) \<noteq> Inr Next" by simp
  with assms(1,2,3) have "fetch_run str_of service keyword pages =
     \<lparr>job_list = concat (map (\<lambda>p. page_listings str_of (service keyword p)) [1..n - 1])
                   @ page_listings str_of (service keyword n),
      requested = [1..n],
      reported = (case page_end str_of (service keyword n) of Inl e \<Rightarrow> [(n, e)] | Inr _ \<Rightarrow> []),
      progress = map (\<lambda>p. (p, pages)) [1..n - 1]\<rparr>"
    by (intro fetch_run_first_stop)
  then show ?thesis
    using stop part len by (simp add: fetch_104_jobs_def)
qed

theorem fetch_keeps_built_listings_witness:
  "\<exists>built. map (job_info (\<lambda>v. [])) [PDict [(ascii ''jobName'', PStr (ascii ''B''))]] = map Inr built
     \<and> job_info (\<lambda>v. []) (PDict [(ascii ''jobName'', PStr (ascii ''C'')),
                                  (ascii ''description'', PNone)]) = Inl TypeError
     \<and> page_end (\<lambda>v. []) (sample_null_description (ascii ''python'') 1) = Inr Next
     \<and> fetch_104_jobs (\<lambda>v. []) sample_null_description (ascii ''python'') 3
         = page_listings (\<lambda>v. []) (sample_null_description (ascii ''python'') 1) @ built
     \<and> length built = 1
     \<and> reported (fetch_run (\<lambda>v. []) sample_null_description (ascii ''python'') 3)
         = [(2, TypeError)]"
proof -
  let ?b = "PDict [(ascii ''jobName'', PStr (ascii ''B''))]"
  let ?c = "PDict [(ascii ''jobName'', PStr (ascii ''C'')), (ascii ''description'', PNone)]"
  let ?e = "PDict [(ascii ''jobName'', PStr (ascii ''E''))]"
  have 1: "page_end (\<lambda>v. []) (sample_null_description (ascii ''python'') 1) = Inr Next"
    by (simp add: sample_null_description_def page_defs listing_defs)
  have good: "\<forall>p\<in>{1..<2}. page_end (\<lambda>v. []) (sample_null_description (ascii ''python'') p) = Inr Next"
    using 1 by (simp add: pages_before_2)
  have doc: "sample_null_description (ascii ''python'') 2 = Inr (page_of ([?b] @ ?c # [?e]))"
    by (simp add: sample_null_description_def)
  have d: "subscript_key (page_of ([?b] @ ?c # [?e])) (ascii ''data'')
      = Inr (PDict [(ascii ''list'', PList ([?b] @ ?c # [?e]))])"
    by (simp add: page_of_def subscript_key_def)
  have l: "subscript_key (PDict [(ascii ''list'', PList ([?b] @ ?c # [?e]))]) (ascii ''list'')
      = Inr (PList ([?b] @ ?c # [?e]))"
    by (simp add: subscript_key_def)
  obtain info where b: "job_info (\<lambda>v. []) ?b = Inr info"
    by (simp add: listing_defs)
  then have built: "map (job_info (\<lambda>v. [])) [?b] = map Inr [info]"
    by simp
  have bad: "job_info (\<lambda>v. []) ?c = Inl TypeError"
    by (simp add: listing_defs)
  show ?thesis
    using fetch_keeps_built_listings [of 2 3 "\<lambda>v. []" sample_null_description "ascii ''python''",
        OF _ _ good doc d l built bad] 1 built bad
    by (intro exI [of _ "[info]"]) simp
qed

end
